theory Spec2Isabelle
  imports Complex_Main "HOL-Library.Sublist"
begin

section \<open>The HandBrake log reader (routes/util/LogReader.js)\<close>

subsection \<open>JavaScript numbers\<close>

text \<open>
  A JavaScript number is an IEEE 754 double: \<open>NaN\<close>, one of the two infinities, the
  negative zero, or a finite value, which is kept as the rational it denotes
  (\<open>Finite 0\<close> is the positive zero). The arithmetic operators compute the exact result
  and round it to the nearest double, ties to the even significand, as the source's
  \<open>+\<close>, \<open>-\<close>, \<open>*\<close> and \<open>/\<close> do.
\<close>

datatype jsnum = Finite rat | NegZero | PosInf | NegInf | NaN

definition pow2 :: "int \<Rightarrow> rat" where
  "pow2 k = (if 0 \<le> k then 2 ^ nat k else 1 / 2 ^ nat (- k))"

text \<open>
  The binary exponent of a positive rational: \<open>ilog2 q\<close> is the integer \<open>e\<close> with
  \<open>2^e \<le> q < 2^(e+1)\<close>, found by halving from above \<open>1\<close> and by doubling from below.
\<close>

function ilogGe :: "rat \<Rightarrow> int" where
  "ilogGe q = (if q < 2 then 0 else ilogGe (q / 2) + 1)"
  by pat_completeness auto
termination
proof (relation "measure (\<lambda>q. nat \<lfloor>q\<rfloor>)")
  show "wf (measure (\<lambda>q::rat. nat \<lfloor>q\<rfloor>))" by simp
next
  fix q :: rat
  assume "\<not> q < 2"
  then have q: "2 \<le> q" by simp
  have "\<lfloor>q / 2\<rfloor> \<le> \<lfloor>q\<rfloor> - 1"
  proof -
    have "q / 2 \<le> q - 1" using q by simp
    then have "\<lfloor>q / 2\<rfloor> \<le> \<lfloor>q - 1\<rfloor>" by (rule floor_mono)
    then show ?thesis by simp
  qed
  moreover have "1 \<le> \<lfloor>q\<rfloor>" using q by (simp add: le_floor_iff)
  ultimately show "(q / 2, q) \<in> measure (\<lambda>q. nat \<lfloor>q\<rfloor>)"
    by simp
qed

function ilogLt :: "rat \<Rightarrow> int" where
  "ilogLt q = (if q \<le> 0 \<or> 1 \<le> q then 0 else ilogLt (q * 2) - 1)"
  by pat_completeness auto
termination
proof (relation "measure (\<lambda>q. nat \<lceil>1 / q\<rceil>)")
  show "wf (measure (\<lambda>q::rat. nat \<lceil>1 / q\<rceil>))" by simp
next
  fix q :: rat
  assume "\<not> (q \<le> 0 \<or> 1 \<le> q)"
  then have q: "0 < q" "q < 1" by simp_all
  let ?x = "1 / q"
  have x: "1 < ?x" using q by simp
  have c2: "2 \<le> \<lceil>?x\<rceil>"
    using x by (simp add: le_ceiling_iff)
  have "1 / (q * 2) = ?x / 2" by simp
  moreover have "\<lceil>?x / 2\<rceil> < \<lceil>?x\<rceil>"
  proof -
    have "?x / 2 \<le> of_int \<lceil>?x\<rceil> / 2"
      by (simp add: divide_right_mono)
    also have "\<dots> \<le> of_int (\<lceil>?x\<rceil> - 1)"
      using c2 by simp
    finally have "\<lceil>?x / 2\<rceil> \<le> \<lceil>?x\<rceil> - 1"
      by (simp only: ceiling_le_iff)
    then show ?thesis by simp
  qed
  ultimately show "(q * 2, q) \<in> measure (\<lambda>q. nat \<lceil>1 / q\<rceil>)"
    using c2 q by simp
qed

declare ilogGe.simps [simp del] ilogLt.simps [simp del]

definition ilog2 :: "rat \<Rightarrow> int" where
  "ilog2 q = (if 1 \<le> q then ilogGe q else ilogLt q)"

definition roundHalfEven :: "rat \<Rightarrow> int" where
  "roundHalfEven q =
     (let f = \<lfloor>q\<rfloor>; d = q - of_int f
      in if d < 1 / 2 then f else if 1 / 2 < d then f + 1 else if even f then f else f + 1)"

text \<open>
  Rounding an exact result to a double: 53 significant bits, the exponent not below
  \<open>-1022\<close> (below it the spacing of the subnormal numbers, \<open>2^-1074\<close>, stays), overflow
  to an infinity from \<open>2^1024\<close> on, and a result that rounds to zero keeps the sign.
\<close>

definition toDouble :: "rat \<Rightarrow> jsnum" where
  "toDouble q =
     (if q = 0 then Finite 0
      else
        let e = max (ilog2 \<bar>q\<bar>) (- 1022);
            ulp = pow2 (e - 52);
            m = roundHalfEven (q / ulp);
            r = of_int m * ulp
        in if pow2 1024 \<le> \<bar>r\<bar> then (if 0 < q then PosInf else NegInf)
           else if m = 0 then (if 0 < q then Finite 0 else NegZero)
           else Finite r)"

fun isNegative :: "jsnum \<Rightarrow> bool" where
  "isNegative (Finite a) = (a < 0)"
| "isNegative NegZero = True"
| "isNegative NegInf = True"
| "isNegative PosInf = False"
| "isNegative NaN = False"

fun isZero :: "jsnum \<Rightarrow> bool" where
  "isZero (Finite a) = (a = 0)"
| "isZero NegZero = True"
| "isZero _ = False"

fun isInfinite :: "jsnum \<Rightarrow> bool" where
  "isInfinite PosInf = True"
| "isInfinite NegInf = True"
| "isInfinite _ = False"

fun valueOf :: "jsnum \<Rightarrow> rat" where
  "valueOf (Finite a) = a"
| "valueOf _ = 0"

definition signedZero :: "bool \<Rightarrow> jsnum" where
  "signedZero negative = (if negative then NegZero else Finite 0)"

definition signedInf :: "bool \<Rightarrow> jsnum" where
  "signedInf negative = (if negative then NegInf else PosInf)"

fun jneg :: "jsnum \<Rightarrow> jsnum" where
  "jneg (Finite a) = (if a = 0 then NegZero else Finite (- a))"
| "jneg NegZero = Finite 0"
| "jneg PosInf = NegInf"
| "jneg NegInf = PosInf"
| "jneg NaN = NaN"

text \<open>
  \<open>x + y\<close>: an exact sum of zero is the positive zero unless both operands are the
  negative zero; opposite infinities give \<open>NaN\<close>.
\<close>

fun jadd :: "jsnum \<Rightarrow> jsnum \<Rightarrow> jsnum" where
  "jadd NaN y = NaN"
| "jadd x NaN = NaN"
| "jadd PosInf NegInf = NaN"
| "jadd NegInf PosInf = NaN"
| "jadd PosInf y = PosInf"
| "jadd x PosInf = PosInf"
| "jadd NegInf y = NegInf"
| "jadd x NegInf = NegInf"
| "jadd NegZero y = y"
| "jadd x NegZero = x"
| "jadd (Finite a) (Finite b) = (if a + b = 0 then Finite 0 else toDouble (a + b))"

text \<open>\<open>x - y\<close> is \<open>x + (-y)\<close>, also for the zeros and the infinities.\<close>

definition jsub :: "jsnum \<Rightarrow> jsnum \<Rightarrow> jsnum" where
  "jsub x y = jadd x (jneg y)"

text \<open>
  \<open>x * y\<close> and \<open>x / y\<close>: the sign of a zero or an infinity is the exclusive or of the
  operands' signs; \<open>\<infinity> * 0\<close>, \<open>\<infinity> / \<infinity>\<close> and \<open>0 / 0\<close> are \<open>NaN\<close>; a non-zero number
  divided by a zero is an infinity.
\<close>

definition jmul :: "jsnum \<Rightarrow> jsnum \<Rightarrow> jsnum" where
  "jmul x y =
     (if x = NaN \<or> y = NaN then NaN
      else if isInfinite x \<or> isInfinite y
        then (if isZero x \<or> isZero y then NaN
              else signedInf (isNegative x \<noteq> isNegative y))
      else if isZero x \<or> isZero y then signedZero (isNegative x \<noteq> isNegative y)
      else toDouble (valueOf x * valueOf y))"

definition jdiv :: "jsnum \<Rightarrow> jsnum \<Rightarrow> jsnum" where
  "jdiv x y =
     (if x = NaN \<or> y = NaN then NaN
      else if isInfinite x
        then (if isInfinite y then NaN else signedInf (isNegative x \<noteq> isNegative y))
      else if isInfinite y then signedZero (isNegative x \<noteq> isNegative y)
      else if isZero y
        then (if isZero x then NaN else signedInf (isNegative x \<noteq> isNegative y))
      else if isZero x then signedZero (isNegative x \<noteq> isNegative y)
      else toDouble (valueOf x / valueOf y))"

text \<open>
  The length of an array as a number: an array has fewer than \<open>2^32\<close> elements, so the
  value is exact.
\<close>

definition lengthNumber :: "'a list \<Rightarrow> jsnum" where
  "lengthNumber xs = Finite (of_nat (length xs))"

subsection \<open>JavaScript strings\<close>

text \<open>\<open>s.slice(a, b)\<close> for non-negative \<open>a \<le> b\<close>, and \<open>s.slice(-2)\<close>.\<close>

definition slice :: "nat \<Rightarrow> nat \<Rightarrow> string \<Rightarrow> string" where
  "slice a b s = take (b - a) (drop a s)"

definition sliceLast2 :: "string \<Rightarrow> string" where
  "sliceLast2 s = drop (length s - 2) s"

text \<open>
  \<open>String.prototype.trim\<close>: the white space and line terminator characters that fit
  in one 8-bit character (TAB, LF, VT, FF, CR, SP, NBSP).
\<close>

definition isWhiteSpace :: "char \<Rightarrow> bool" where
  "isWhiteSpace c = (of_char c \<in> {9, 10, 11, 12, 13, 32, 160 :: nat})"

definition trim :: "string \<Rightarrow> string" where
  "trim s = rev (dropWhile isWhiteSpace (rev (dropWhile isWhiteSpace s)))"

definition isDigit :: "char \<Rightarrow> bool" where
  "isDigit c = (48 \<le> (of_char c :: nat) \<and> (of_char c :: nat) \<le> 57)"

definition digitVal :: "char \<Rightarrow> rat" where
  "digitVal c = of_nat (of_char c - 48)"

text \<open>
  \<open>Number(t)\<close> for a trimmed string \<open>t\<close> of at most two characters, which is all
  that \<open>line.slice(-2).trim()\<close> can produce: the empty string is \<open>0\<close>, then the
  decimal literals \<open>d\<close>, \<open>dd\<close>, \<open>+d\<close>, \<open>-d\<close> (\<open>-0\<close> is the negative zero), \<open>.d\<close> (the
  double nearest to the tenths) and \<open>d.\<close>; every other text is \<open>NaN\<close> (hexadecimal,
  exponent and \<open>Infinity\<close> literals need three characters or more).
\<close>

fun Number :: "string \<Rightarrow> jsnum" where
  "Number [] = Finite 0"
| "Number [a] = (if isDigit a then Finite (digitVal a) else NaN)"
| "Number [a, b] =
     (if isDigit a \<and> isDigit b then Finite (10 * digitVal a + digitVal b)
      else if a = CHR ''+'' \<and> isDigit b then Finite (digitVal b)
      else if a = CHR ''-'' \<and> isDigit b then jneg (Finite (digitVal b))
      else if a = CHR ''.'' \<and> isDigit b then toDouble (digitVal b / 10)
      else if isDigit a \<and> b = CHR ''.'' then Finite (digitVal a)
      else NaN)"
| "Number _ = NaN"

subsection \<open>The collaborators that are not part of the verified sources\<close>

text \<open>
  Modelled from the spec: the \<open>STATUS\<close> table of \<open>HBStatus\<close>, which is not among the
  sources. Section 4.2 of the specification enumerates the status symbols; the code
  compares them with \<open>===\<close> only, so they are distinct constructors.
\<close>

datatype status_symbol =
  SCANNING | SCAN_COMPLETE | RIPPING | RIPPING_SUB_SCAN | RIPPING_ENCODING | QUEUE_COMPLETE

text \<open>
  \<open>ReaderUtil\<close> and the remaining tables of \<open>HBStatus\<close> are not among the sources
  either. Every function of \<open>LogReader\<close> takes them as a parameter: one field per
  helper, regular expression or constant that \<open>LogReader.js\<close> uses.
  \<^item> \<open>lineToStatus line previous\<close> is \<open>ReaderUtil.lineToStatus\<close>;
  \<^item> \<open>lineContains line text\<close> is \<open>ReaderUtil.lineContains\<close> and \<open>ENCODE_STARTED\<close> is
    \<open>RIP_PROGRESS_CONSTANTS.ENCODE_STARTED\<close>;
  \<^item> \<open>getEncodeName\<close>, \<open>getDateFromTime\<close> (the time value of the date it builds, \<open>NaN\<close>
    for an invalid date) and \<open>secondsToFormattedTime\<close> are the helpers of these names;
  \<^item> \<open>matchTITLE_NUMBER line\<close> and \<open>matchCHAPTER_PROGRESS line\<close> say whether
    \<open>line.match(RIP_REGEXPS.TITLE_NUMBER)\<close> and \<open>line.match(RIP_REGEXPS.CHAPTER_PROGRESS)\<close>
    find a match;
  \<^item> \<open>REVERSE_STATUS_LOOKUP\<close> is the table of that name.
\<close>

record reader_util =
  lineToStatus :: "string \<Rightarrow> status_symbol \<Rightarrow> status_symbol"
  lineContains :: "string \<Rightarrow> string \<Rightarrow> bool"
  ENCODE_STARTED :: string
  getEncodeName :: "string \<Rightarrow> string"
  getDateFromTime :: "string \<Rightarrow> jsnum"
  secondsToFormattedTime :: "jsnum \<Rightarrow> string"
  matchTITLE_NUMBER :: "string \<Rightarrow> bool"
  matchCHAPTER_PROGRESS :: "string \<Rightarrow> bool"
  REVERSE_STATUS_LOOKUP :: "status_symbol \<Rightarrow> string"

subsection \<open>The status record\<close>

text \<open>
  The object \<open>this.status\<close>. The field \<open>status\<close> is absent (\<open>None\<close>) until the
  \<open>close\<close> listener stores the label of the final status.
\<close>

record hb_status =
  currentEncode :: string
  startTime :: string
  endTime :: string
  statusText :: status_symbol
  numChapters :: jsnum
  etaEstimators :: "string list"
  eta :: string
  status :: "string option"

text \<open>\<open>clearStats\<close> assigns seven fields of the object and leaves \<open>status\<close> alone.\<close>

definition clearStats :: "hb_status \<Rightarrow> hb_status" where
  "clearStats st = st\<lparr>currentEncode := '''', startTime := '''', endTime := '''',
     statusText := QUEUE_COMPLETE, numChapters := Finite (- 1), etaEstimators := [],
     eta := ''''\<rparr>"

definition addLineIfIsIndicator :: "reader_util \<Rightarrow> string \<Rightarrow> hb_status \<Rightarrow> hb_status" where
  "addLineIfIsIndicator u line st =
     (if matchTITLE_NUMBER u line
        then st\<lparr>numChapters := Number (trim (sliceLast2 line))\<rparr>
      else if matchCHAPTER_PROGRESS u line
        then st\<lparr>etaEstimators := etaEstimators st @ [line]\<rparr>
      else st)"

definition resolveStatus :: "reader_util \<Rightarrow> string \<Rightarrow> hb_status \<Rightarrow> hb_status" where
  "resolveStatus u line st =
     (let lineStatus = lineToStatus u line (statusText st);
          st' = (case lineStatus of
                   SCANNING \<Rightarrow> clearStats st
                 | SCAN_COMPLETE \<Rightarrow> clearStats st
                 | RIPPING \<Rightarrow>
                     if \<not> lineContains u line (ENCODE_STARTED u) then st
                     else (clearStats st)\<lparr>startTime := slice 1 9 line,
                            currentEncode := getEncodeName u line\<rparr>
                 | RIPPING_SUB_SCAN \<Rightarrow> st\<lparr>eta := ''~''\<rparr>
                 | RIPPING_ENCODING \<Rightarrow> st\<lparr>eta := ''~''\<rparr>
                 | QUEUE_COMPLETE \<Rightarrow> st\<lparr>endTime := slice 1 9 line\<rparr>)
      in st'\<lparr>statusText := lineStatus\<rparr>)"

text \<open>The \<open>line\<close> listener of \<open>getHBStatusItems\<close>: the indicator check, then the status fold.\<close>

definition onLine :: "reader_util \<Rightarrow> string \<Rightarrow> hb_status \<Rightarrow> hb_status" where
  "onLine u line st = resolveStatus u line (addLineIfIsIndicator u line st)"

subsection \<open>The estimate of the remaining time\<close>

text \<open>The two \<open>for\<close> loops of \<open>calcEta\<close>, with the index and the accumulator they carry
  (\<open>sumv\<close> is the variable \<open>sum\<close> of the source).\<close>

function diffLoop :: "nat \<Rightarrow> jsnum list \<Rightarrow> jsnum list \<Rightarrow> jsnum list" where
  "diffLoop i etaDates dateDiffs =
     (if i < length etaDates
      then diffLoop (i + 1) etaDates (dateDiffs @ [jsub (etaDates ! i) (etaDates ! (i - 1))])
      else dateDiffs)"
  by pat_completeness auto
termination
  by (relation "measure (\<lambda>(i, etaDates, dateDiffs). length etaDates - i)") auto

function sumLoop :: "nat \<Rightarrow> jsnum list \<Rightarrow> jsnum \<Rightarrow> jsnum" where
  "sumLoop i dateDiffs sumv =
     (if i < length dateDiffs
      then sumLoop (i + 1) dateDiffs (jadd sumv (dateDiffs ! i))
      else sumv)"
  by pat_completeness auto
termination
  by (relation "measure (\<lambda>(i, dateDiffs, sumv). length dateDiffs - i)") auto

declare diffLoop.simps [simp del] sumLoop.simps [simp del]

text \<open>The \<open>return\<close> statement that \<open>calcEta\<close> leaves through, in the order of the source.\<close>

datatype eta_return = RetComplete | RetNotRipping | RetTooFew | RetNoDiffs | RetFormatted

text \<open>
  \<open>calcEta\<close>, tagged with the \<open>return\<close> taken. \<open>seam\<close> is \<open>this.testSeam_currentTime\<close>
  (the time value of the injected date, \<open>None\<close> when the constructor got none) and
  \<open>now\<close> is the time value of \<open>new Date()\<close>.
\<close>

definition calcEtaTagged ::
  "reader_util \<Rightarrow> jsnum option \<Rightarrow> jsnum \<Rightarrow> hb_status \<Rightarrow> eta_return \<times> string" where
  "calcEtaTagged u seam now st =
     (if statusText st = QUEUE_COMPLETE then (RetComplete, ''00:00:00'')
      else if statusText st \<noteq> RIPPING_ENCODING \<and> statusText st \<noteq> RIPPING_SUB_SCAN
        then (RetNotRipping, '''')
      else if length (etaEstimators st) < 2 then (RetTooFew, ''~'')
      else
        let etaDates = map (\<lambda>est. getDateFromTime u (slice 1 9 est)) (etaEstimators st);
            dateDiffs = diffLoop 1 etaDates []
        in if length dateDiffs = 0 then (RetNoDiffs, ''00:00:00'')
           else
             let sumv = sumLoop 0 dateDiffs (Finite 0);
                 currentDate = (case seam of Some t \<Rightarrow> t | None \<Rightarrow> now);
                 numRemainingChapters =
                   jsub (numChapters st) (lengthNumber (etaEstimators st));
                 avg = jdiv sumv (lengthNumber dateDiffs);
                 msSinceCheckin = jsub currentDate (etaDates ! (length etaDates - 1));
                 timeInSecs =
                   jdiv (jsub (jmul avg numRemainingChapters) msSinceCheckin) (Finite 1000)
             in (RetFormatted, secondsToFormattedTime u timeInSecs))"

definition calcEta :: "reader_util \<Rightarrow> jsnum option \<Rightarrow> jsnum \<Rightarrow> hb_status \<Rightarrow> string" where
  "calcEta u seam now st = snd (calcEtaTagged u seam now st)"

text \<open>
  The \<open>close\<close> listener: the label, then the estimate, stored in the object that the
  promise is resolved with.
\<close>

definition onClose :: "reader_util \<Rightarrow> jsnum option \<Rightarrow> jsnum \<Rightarrow> hb_status \<Rightarrow> hb_status" where
  "onClose u seam now st =
     (let st1 = st\<lparr>status := Some (REVERSE_STATUS_LOOKUP u (statusText st))\<rparr>
      in st1\<lparr>eta := calcEta u seam now st1\<rparr>)"

text \<open>\<open>this.status = {}; this.clearStats()\<close>: the record every query starts from.\<close>

definition freshStatus :: hb_status where
  "freshStatus = \<lparr>currentEncode = '''', startTime = '''', endTime = '''',
     statusText = QUEUE_COMPLETE, numChapters = Finite (- 1), etaEstimators = [],
     eta = '''', status = None\<rparr>"

text \<open>
  One query that runs alone and whose line source ends normally: the lines are folded in
  file order, then the \<open>close\<close> listener runs.
\<close>

definition getHBStatusItems ::
  "reader_util \<Rightarrow> jsnum option \<Rightarrow> jsnum \<Rightarrow> string list \<Rightarrow> hb_status" where
  "getHBStatusItems u seam now lines =
     onClose u seam now (foldl (\<lambda>st line. onLine u line st) freshStatus lines)"

subsection \<open>What the specification says about the estimate\<close>

text \<open>
  The timestamps of the estimator lines (characters 1 to 9 of each, resolved by
  \<open>getDateFromTime\<close>), the successive differences of a list, the arithmetic mean (the
  sum taken from the first difference on, since the addition of doubles is not
  associative, divided by the count), and the remaining seconds of section 4.3 of the
  specification.
\<close>

definition estimatorTimes :: "reader_util \<Rightarrow> hb_status \<Rightarrow> jsnum list" where
  "estimatorTimes u st = map (\<lambda>est. getDateFromTime u (slice 1 9 est)) (etaEstimators st)"

definition successiveDifferences :: "jsnum list \<Rightarrow> jsnum list" where
  "successiveDifferences ts = map (\<lambda>(a, b). jsub b a) (zip ts (tl ts))"

definition arithmeticMean :: "jsnum list \<Rightarrow> jsnum" where
  "arithmeticMean xs = jdiv (foldl jadd (Finite 0) xs) (lengthNumber xs)"

definition referenceNow :: "jsnum option \<Rightarrow> jsnum \<Rightarrow> jsnum" where
  "referenceNow seam now = (case seam of Some t \<Rightarrow> t | None \<Rightarrow> now)"

definition specRemainingSeconds :: "jsnum list \<Rightarrow> jsnum \<Rightarrow> jsnum \<Rightarrow> jsnum" where
  "specRemainingSeconds ts chapters current =
     jdiv (jsub (jmul (arithmeticMean (successiveDifferences ts))
                      (jsub chapters (lengthNumber ts)))
                (jsub current (last ts)))
          (Finite 1000)"

subsection \<open>An instance of the collaborators, to run the reader on concrete lines\<close>

text \<open>
  The theorems below hold for every \<open>reader_util\<close>. To evaluate the reader on concrete
  log lines a definite instance is needed; this one recognises a line by a phrase it
  contains and, as the comment in \<open>resolveStatus\<close> says of \<open>lineToStatus\<close>, keeps the
  previous status for a line that has none of the phrases. Times are \<open>HH:MM:SS\<close>
  counted in milliseconds from midnight of the reference date, and a duration is
  printed as \<open>HH:MM:SS\<close>.
\<close>

fun startsWith :: "string \<Rightarrow> string \<Rightarrow> bool" where
  "startsWith _ [] = True"
| "startsWith [] (p # ps) = False"
| "startsWith (c # cs) (p # ps) = (c = p \<and> startsWith cs ps)"

fun containsText :: "string \<Rightarrow> string \<Rightarrow> bool" where
  "containsText [] p = (p = [])"
| "containsText (c # cs) p = (startsWith (c # cs) p \<or> containsText cs p)"

fun textAfter :: "string \<Rightarrow> string \<Rightarrow> string" where
  "textAfter [] p = []"
| "textAfter (c # cs) p =
     (if startsWith (c # cs) p then drop (length p) (c # cs) else textAfter cs p)"

definition twoDigits :: "string \<Rightarrow> nat option" where
  "twoDigits s = (case s of
      [a, b] \<Rightarrow> if isDigit a \<and> isDigit b
                then Some ((of_char a - 48) * 10 + (of_char b - 48)) else None
    | _ \<Rightarrow> None)"

definition sampleGetDateFromTime :: "string \<Rightarrow> jsnum" where
  "sampleGetDateFromTime t =
     (case (twoDigits (take 2 t), twoDigits (take 2 (drop 3 t)), twoDigits (take 2 (drop 6 t))) of
        (Some h, Some m, Some s) \<Rightarrow>
          if length t = 8 \<and> t ! 2 = CHR '':'' \<and> t ! 5 = CHR '':''
          then Finite (of_nat (((h * 60 + m) * 60 + s) * 1000)) else NaN
      | _ \<Rightarrow> NaN)"

definition pad2 :: "nat \<Rightarrow> string" where
  "pad2 n = [''0123456789'' ! ((n div 10) mod 10), ''0123456789'' ! (n mod 10)]"

fun sampleSecondsToFormattedTime :: "jsnum \<Rightarrow> string" where
  "sampleSecondsToFormattedTime (Finite q) =
     (let t = nat (\<lfloor>q\<rfloor> mod 86400)
      in pad2 (t div 3600) @ '':'' @ pad2 ((t div 60) mod 60) @ '':'' @ pad2 (t mod 60))"
| "sampleSecondsToFormattedTime NegZero = ''00:00:00''"
| "sampleSecondsToFormattedTime _ = ''NaN:NaN:NaN''"

definition sampleLineToStatus :: "string \<Rightarrow> status_symbol \<Rightarrow> status_symbol" where
  "sampleLineToStatus line previous =
     (if containsText line ''hb_scan:'' then SCANNING
      else if containsText line ''scan thread found'' then SCAN_COMPLETE
      else if containsText line ''Starting Encode: '' then RIPPING
      else if containsText line ''Subtitle Scan'' then RIPPING_SUB_SCAN
      else if containsText line ''Encoding Pass'' then RIPPING_ENCODING
      else if containsText line ''work result = 0'' then QUEUE_COMPLETE
      else previous)"

definition sampleUtil :: reader_util where
  "sampleUtil = \<lparr>
     lineToStatus = sampleLineToStatus,
     lineContains = containsText,
     ENCODE_STARTED = ''Starting Encode: '',
     getEncodeName = (\<lambda>line. textAfter line ''Starting Encode: ''),
     getDateFromTime = sampleGetDateFromTime,
     secondsToFormattedTime = sampleSecondsToFormattedTime,
     matchTITLE_NUMBER = (\<lambda>line. containsText line ''chapter(s) 1 to ''),
     matchCHAPTER_PROGRESS = (\<lambda>line. containsText line ''sync: Chapter''),
     REVERSE_STATUS_LOOKUP = (\<lambda>s. case s of
         SCANNING \<Rightarrow> ''Scanning''
       | SCAN_COMPLETE \<Rightarrow> ''Scan complete''
       | RIPPING \<Rightarrow> ''Ripping''
       | RIPPING_SUB_SCAN \<Rightarrow> ''Ripping (subtitle scan)''
       | RIPPING_ENCODING \<Rightarrow> ''Ripping (encoding)''
       | QUEUE_COMPLETE \<Rightarrow> ''Queue complete'') \<rparr>"

text \<open>A record in the middle of an encode, with two chapters done out of five.\<close>

definition midEncode :: hb_status where
  "midEncode = \<lparr>currentEncode = ''Snatched'', startTime = ''00:09:30'', endTime = '''',
     statusText = RIPPING_ENCODING, numChapters = Finite 5,
     etaEstimators = [''[00:10:00] sync: Chapter 1'', ''[00:11:00] sync: Chapter 2''],
     eta = ''~'', status = None\<rparr>"

text \<open>
  A record with four chapters done out of nineteen, four and five seconds apart, and the
  mocked time five seconds after the last of them: the mean of the three intervals,
  \<open>13000 / 3\<close>, is not a double.
\<close>

definition unevenEncode :: hb_status where
  "unevenEncode = \<lparr>currentEncode = ''Snatched'', startTime = ''00:09:30'', endTime = '''',
     statusText = RIPPING_ENCODING, numChapters = Finite 19,
     etaEstimators = [''[00:10:00] sync: Chapter 1'', ''[00:10:04] sync: Chapter 2'',
                      ''[00:10:09] sync: Chapter 3'', ''[00:10:13] sync: Chapter 4''],
     eta = ''~'', status = None\<rparr>"

definition unevenTime :: "jsnum option" where
  "unevenTime = Some (Finite 618000)"

text \<open>
  A line that matches no status pattern and no indicator pattern: neither regular
  expression matches, the line has no encode-started marker, and \<open>lineToStatus\<close>
  answers with the status it was given.
\<close>

definition noPatternLine :: "reader_util \<Rightarrow> string \<Rightarrow> hb_status \<Rightarrow> bool" where
  "noPatternLine u line st =
     (\<not> matchTITLE_NUMBER u line \<and> \<not> matchCHAPTER_PROGRESS u line \<and>
      \<not> lineContains u line (ENCODE_STARTED u) \<and>
      lineToStatus u line (statusText st) = statusText st)"

text \<open>The verdicts on which \<open>resolveStatus\<close> calls \<open>clearStats\<close>.\<close>

definition resetsRecord :: "reader_util \<Rightarrow> string \<Rightarrow> hb_status \<Rightarrow> bool" where
  "resetsRecord u line st =
     (let v = lineToStatus u line (statusText st)
      in v = SCANNING \<or> v = SCAN_COMPLETE \<or>
         (v = RIPPING \<and> lineContains u line (ENCODE_STARTED u)))"

subsection \<open>Queries in flight: the reader object, the heap and the listeners\<close>

text \<open>
  A \<open>LogReader\<close> object has the two test seams and the property \<open>status\<close>, a reference
  to the status object of the latest call (\<open>None\<close> before the first call). The status
  objects live in a heap, since the listeners reach them through \<open>this.status\<close> each
  time they run and the promise is resolved with the reference.
\<close>

record log_reader =
  testSeam_fileRedirect :: "string option"
  testSeam_currentTime :: "jsnum option"
  status_ref :: "nat option"

text \<open>A promise is pending (\<open>None\<close>), resolved with a reference, or rejected with an error.\<close>

datatype outcome = Resolved nat | Rejected string

record world =
  heap :: "nat \<Rightarrow> hb_status option"
  nextAddr :: nat
  readers :: "nat \<Rightarrow> log_reader"
  settled :: "nat \<Rightarrow> outcome option"

text \<open>
  What the event loop runs, one callback to completion at a time:
  \<^item> \<open>Invoke c i\<close>: call \<open>c\<close> of \<open>getHBStatusItems\<close> on reader \<open>i\<close>; the promise executor
    runs at once and stores a fresh, cleared object in \<open>this.status\<close>;
  \<^item> \<open>LineEvent i line\<close>: a \<open>line\<close> listener registered by a call on reader \<open>i\<close>;
  \<^item> \<open>ErrorEvent c i err\<close>: the \<open>error\<close> listener of call \<open>c\<close>, which is \<open>reject\<close>;
  \<^item> \<open>CloseEvent c i now\<close>: the \<open>close\<close> listener of call \<open>c\<close> on reader \<open>i\<close>, with the
    clock reading \<open>now\<close>; it resolves the promise of \<open>c\<close> with \<open>this.status\<close>.
  A promise settles once: \<open>resolve\<close> and \<open>reject\<close> on a settled promise do nothing.
  A listener cannot run before the call that registers it, so it finds \<open>this.status\<close>
  set; on a world where it is not, the step changes nothing.
\<close>

datatype event =
  Invoke nat nat | LineEvent nat string | ErrorEvent nat nat string | CloseEvent nat nat jsnum

fun instOf :: "event \<Rightarrow> nat" where
  "instOf (Invoke c i) = i"
| "instOf (LineEvent i line) = i"
| "instOf (ErrorEvent c i err) = i"
| "instOf (CloseEvent c i now) = i"

definition settle :: "nat \<Rightarrow> outcome \<Rightarrow> world \<Rightarrow> world" where
  "settle c out w =
     (case settled w c of
        None \<Rightarrow> w\<lparr>settled := (settled w)(c \<mapsto> out)\<rparr>
      | Some _ \<Rightarrow> w)"

fun step :: "reader_util \<Rightarrow> event \<Rightarrow> world \<Rightarrow> world" where
  "step u (Invoke c i) w =
     w\<lparr>heap := (heap w)(nextAddr w \<mapsto> freshStatus),
       nextAddr := nextAddr w + 1,
       readers := (readers w)(i := (readers w i)\<lparr>status_ref := Some (nextAddr w)\<rparr>)\<rparr>"
| "step u (LineEvent i line) w =
     (case status_ref (readers w i) of
        None \<Rightarrow> w
      | Some a \<Rightarrow>
          (case heap w a of
             None \<Rightarrow> w
           | Some st \<Rightarrow> w\<lparr>heap := (heap w)(a \<mapsto> onLine u line st)\<rparr>))"
| "step u (ErrorEvent c i err) w = settle c (Rejected err) w"
| "step u (CloseEvent c i now) w =
     (case status_ref (readers w i) of
        None \<Rightarrow> w
      | Some a \<Rightarrow>
          (case heap w a of
             None \<Rightarrow> w
           | Some st \<Rightarrow>
               settle c (Resolved a)
                 (w\<lparr>heap := (heap w)(a \<mapsto>
                      onClose u (testSeam_currentTime (readers w i)) now st)\<rparr>)))"

definition run :: "reader_util \<Rightarrow> event list \<Rightarrow> world \<Rightarrow> world" where
  "run u es w = foldl (\<lambda>w e. step u e w) w es"

text \<open>No call made yet; reader \<open>i\<close> was constructed with the mocked time \<open>seams i\<close>.\<close>

definition initialWorld :: "(nat \<Rightarrow> jsnum option) \<Rightarrow> world" where
  "initialWorld seams =
     \<lparr>heap = Map.empty, nextAddr = 0,
      readers = (\<lambda>i. \<lparr>testSeam_fileRedirect = None, testSeam_currentTime = seams i,
                       status_ref = None\<rparr>),
      settled = Map.empty\<rparr>"

text \<open>The events of one query whose line source ends normally, in the order of its stream.\<close>

definition queryEvents :: "nat \<Rightarrow> nat \<Rightarrow> string list \<Rightarrow> jsnum \<Rightarrow> event list" where
  "queryEvents c i lines now = Invoke c i # map (LineEvent i) lines @ [CloseEvent c i now]"

text \<open>
  The object that the promise of call \<open>c\<close> was resolved with, as its caller reads it;
  \<open>None\<close> while the promise is pending or when it was rejected.
\<close>

definition delivered :: "world \<Rightarrow> nat \<Rightarrow> hb_status option" where
  "delivered w c = (case settled w c of Some (Resolved a) \<Rightarrow> heap w a | _ \<Rightarrow> None)"

text \<open>The object behind \<open>this.status\<close> of reader \<open>i\<close>.\<close>

definition thisStatus :: "world \<Rightarrow> nat \<Rightarrow> hb_status option" where
  "thisStatus w i = (case status_ref (readers w i) of None \<Rightarrow> None | Some a \<Rightarrow> heap w a)"

text \<open>A short log of an encode in progress, and the mocked time three minutes later.\<close>

definition encodeLog :: "string list" where
  "encodeLog =
     [''[00:09:30] Starting Encode: Snatched'',
      ''[00:09:31] Encoding Pass'',
      ''  + title 1, chapter(s) 1 to 5'',
      ''[00:10:00] sync: Chapter 1'',
      ''[00:11:00] sync: Chapter 2'']"

definition mockedTime :: "jsnum option" where
  "mockedTime = Some (Finite 840000)"

text \<open>
  The same listeners seen from one reader: what an event of reader \<open>i\<close> does to the
  object behind its \<open>this.status\<close>, when no other reader shares it.
\<close>

fun localStep :: "reader_util \<Rightarrow> jsnum option \<Rightarrow> event \<Rightarrow> hb_status option \<Rightarrow> hb_status option" where
  "localStep u seam (Invoke c i) v = Some freshStatus"
| "localStep u seam (LineEvent i line) v = map_option (onLine u line) v"
| "localStep u seam (ErrorEvent c i err) v = v"
| "localStep u seam (CloseEvent c i now) v = map_option (onClose u seam now) v"

text \<open>The events that settle the promise of call \<open>c\<close>.\<close>

fun settlesCall :: "nat \<Rightarrow> event \<Rightarrow> bool" where
  "settlesCall c (CloseEvent c' i now) = (c' = c)"
| "settlesCall c (ErrorEvent c' i err) = (c' = c)"
| "settlesCall c _ = False"

text \<open>
  Every reference held by a reader points below the allocation pointer, and no two
  readers hold the same reference.
\<close>

definition wellFormed :: "world \<Rightarrow> bool" where
  "wellFormed w =
     ((\<forall>i a. status_ref (readers w i) = Some a \<longrightarrow> a < nextAddr w) \<and>
      (\<forall>i j a. status_ref (readers w i) = Some a \<and> status_ref (readers w j) = Some a
         \<longrightarrow> i = j))"

text \<open>
  Two calls on the same reader \<open>0\<close>, both replaying \<open>encodeLog\<close>, their events taken in
  turn: both executors, then the lines of the two streams alternating, then both
  \<open>close\<close> listeners.
\<close>

definition sameReaderSchedule :: "event list" where
  "sameReaderSchedule =
     splice (queryEvents 1 0 encodeLog (Finite 0)) (queryEvents 2 0 encodeLog (Finite 0))"

section \<open>Properties\<close>

subsection \<open>The early returns of \<open>calcEta\<close>, and the status fold\<close>

lemma statusText_addLineIfIsIndicator:
  "statusText (addLineIfIsIndicator u line st) = statusText st"
  by (simp add: addLineIfIsIndicator_def)

text \<open>
  Claim C5. For every final record whose \<open>statusText\<close> is \<open>QUEUE_COMPLETE\<close>, the computed
  estimate is exactly \<open>"00:00:00"\<close>, whatever \<open>etaEstimators\<close>, \<open>numChapters\<close> and the
  other fields hold.
\<close>

theorem calcEta_queue_complete:
  "statusText st = QUEUE_COMPLETE \<Longrightarrow> calcEta u seam now st = ''00:00:00''"
  by (simp add: calcEta_def calcEtaTagged_def)

theorem calcEta_queue_complete_witness:
  "statusText (midEncode\<lparr>statusText := QUEUE_COMPLETE\<rparr>) = QUEUE_COMPLETE \<and>
   calcEta sampleUtil mockedTime (Finite 0) (midEncode\<lparr>statusText := QUEUE_COMPLETE\<rparr>) = ''00:00:00''"
  using calcEta_queue_complete [of "midEncode\<lparr>statusText := QUEUE_COMPLETE\<rparr>" sampleUtil mockedTime "Finite 0"]
  by simp

text \<open>
  Claim C4. For every final record whose \<open>statusText\<close> is \<open>RIPPING_ENCODING\<close> or
  \<open>RIPPING_SUB_SCAN\<close> and whose \<open>etaEstimators\<close> has fewer than two entries, the computed
  estimate is exactly the sentinel \<open>"~"\<close>.
\<close>

theorem calcEta_too_few_estimators:
  "statusText st = RIPPING_ENCODING \<or> statusText st = RIPPING_SUB_SCAN \<Longrightarrow>
   length (etaEstimators st) < 2 \<Longrightarrow> calcEta u seam now st = ''~''"
  by (auto simp add: calcEta_def calcEtaTagged_def)

theorem calcEta_too_few_estimators_witness:
  "(statusText (midEncode\<lparr>etaEstimators := [''[00:10:00] sync: Chapter 1'']\<rparr>) = RIPPING_ENCODING \<or>
    statusText (midEncode\<lparr>etaEstimators := [''[00:10:00] sync: Chapter 1'']\<rparr>) = RIPPING_SUB_SCAN) \<and>
   length (etaEstimators (midEncode\<lparr>etaEstimators := [''[00:10:00] sync: Chapter 1'']\<rparr>)) < 2 \<and>
   calcEta sampleUtil mockedTime (Finite 0)
     (midEncode\<lparr>etaEstimators := [''[00:10:00] sync: Chapter 1'']\<rparr>) = ''~''"
  using calcEta_too_few_estimators
    [of "midEncode\<lparr>etaEstimators := [''[00:10:00] sync: Chapter 1'']\<rparr>" sampleUtil mockedTime "Finite 0"]
  by (simp add: midEncode_def)

text \<open>
  Claim C6. For every record and every line whose verdict is \<open>SCANNING\<close> or
  \<open>SCAN_COMPLETE\<close>, folding the line resets \<open>currentEncode\<close>, \<open>startTime\<close> and \<open>endTime\<close>
  to the empty string, \<open>numChapters\<close> to \<open>-1\<close>, \<open>etaEstimators\<close> to the empty sequence
  and \<open>eta\<close> to the empty string, and then sets \<open>statusText\<close> to the verdict. This holds
  for \<open>resolveStatus\<close> alone and for the whole \<open>line\<close> listener, whose indicator check
  runs first and is undone by the reset.
\<close>

theorem resolveStatus_scan_resets:
  assumes "lineToStatus u line (statusText st) = v" and "v = SCANNING \<or> v = SCAN_COMPLETE"
  shows "resolveStatus u line st =
           st\<lparr>currentEncode := '''', startTime := '''', endTime := '''',
              numChapters := Finite (- 1), etaEstimators := [], eta := '''', statusText := v\<rparr> \<and>
         onLine u line st = resolveStatus u line st"
  using assms
  by (auto simp add: onLine_def resolveStatus_def clearStats_def
      statusText_addLineIfIsIndicator addLineIfIsIndicator_def)

theorem resolveStatus_scan_resets_witness:
  "lineToStatus sampleUtil ''[00:12:00] hb_scan: path=/dev/sr0'' (statusText midEncode) = SCANNING \<and>
   (SCANNING = SCANNING \<or> SCANNING = SCAN_COMPLETE) \<and>
   resolveStatus sampleUtil ''[00:12:00] hb_scan: path=/dev/sr0'' midEncode =
     midEncode\<lparr>currentEncode := '''', startTime := '''', endTime := '''',
        numChapters := Finite (- 1), etaEstimators := [], eta := '''', statusText := SCANNING\<rparr> \<and>
   onLine sampleUtil ''[00:12:00] hb_scan: path=/dev/sr0'' midEncode =
     resolveStatus sampleUtil ''[00:12:00] hb_scan: path=/dev/sr0'' midEncode"
proof -
  have v: "lineToStatus sampleUtil ''[00:12:00] hb_scan: path=/dev/sr0'' (statusText midEncode) = SCANNING"
    by (simp add: sampleUtil_def sampleLineToStatus_def)
  show ?thesis
    using v resolveStatus_scan_resets [OF v] by simp
qed

text \<open>
  Claim C7. For every record and every line whose verdict is \<open>RIPPING\<close>: when the line
  does not contain the encode-started marker, \<open>resolveStatus\<close> leaves every field but
  \<open>statusText\<close> unchanged, and the estimator lines accumulated so far are still there
  after the whole \<open>line\<close> listener; when the line contains the marker, the record is
  reset and \<open>startTime\<close> and \<open>currentEncode\<close> are extracted from the line.
\<close>

theorem resolveStatus_ripping_without_marker:
  assumes "lineToStatus u line (statusText st) = RIPPING"
  shows "(\<not> lineContains u line (ENCODE_STARTED u) \<longrightarrow>
            resolveStatus u line st = st\<lparr>statusText := RIPPING\<rparr> \<and>
            prefix (etaEstimators st) (etaEstimators (onLine u line st))) \<and>
         (lineContains u line (ENCODE_STARTED u) \<longrightarrow>
            resolveStatus u line st =
              (clearStats st)\<lparr>startTime := slice 1 9 line,
                 currentEncode := getEncodeName u line, statusText := RIPPING\<rparr>)"
  using assms
  by (auto simp add: onLine_def resolveStatus_def addLineIfIsIndicator_def)


theorem resolveStatus_ripping_without_marker_witness:
  "lineToStatus sampleUtil ''[00:11:30] reader: done'' (statusText (midEncode\<lparr>statusText := RIPPING\<rparr>)) = RIPPING \<and>
   \<not> lineContains sampleUtil ''[00:11:30] reader: done'' (ENCODE_STARTED sampleUtil) \<and>
   resolveStatus sampleUtil ''[00:11:30] reader: done'' (midEncode\<lparr>statusText := RIPPING\<rparr>) =
     midEncode\<lparr>statusText := RIPPING\<rparr> \<and>
   etaEstimators (resolveStatus sampleUtil ''[00:11:30] reader: done'' (midEncode\<lparr>statusText := RIPPING\<rparr>)) =
     [''[00:10:00] sync: Chapter 1'', ''[00:11:00] sync: Chapter 2'']"
proof -
  have v: "lineToStatus sampleUtil ''[00:11:30] reader: done''
             (statusText (midEncode\<lparr>statusText := RIPPING\<rparr>)) = RIPPING"
    by (simp add: sampleUtil_def sampleLineToStatus_def)
  have m: "\<not> lineContains sampleUtil ''[00:11:30] reader: done'' (ENCODE_STARTED sampleUtil)"
    by (simp add: sampleUtil_def)
  show ?thesis
    using v m resolveStatus_ripping_without_marker [OF v] by (simp add: midEncode_def)
qed

subsection \<open>Doubles: the exponent is the right one, and the values the examples need\<close>

lemma pow2_Suc: "pow2 (k + 1) = 2 * pow2 k"
proof (cases "0 \<le> k")
  case True
  then show ?thesis by (simp add: pow2_def nat_add_distrib)
next
  case False
  then have k: "k < 0" by simp
  show ?thesis
  proof (cases "k = - 1")
    case True
    then show ?thesis by (simp add: pow2_def)
  next
    case False
    with k have "nat (- k) = Suc (nat (- (k + 1)))" by simp
    with k False show ?thesis by (simp add: pow2_def)
  qed
qed

lemma ilogGe_bounds: "1 \<le> q \<Longrightarrow> pow2 (ilogGe q) \<le> q \<and> q < pow2 (ilogGe q + 1)"
proof (induction q rule: ilogGe.induct)
  case (1 q)
  show ?case
  proof (cases "q < 2")
    case True
    with "1.prems" show ?thesis
      by (subst (1 2) ilogGe.simps) (simp add: pow2_def)
  next
    case False
    then have "1 \<le> q / 2" by simp
    with "1.IH" False
    have "pow2 (ilogGe (q / 2)) \<le> q / 2 \<and> q / 2 < pow2 (ilogGe (q / 2) + 1)" by simp
    then have "pow2 (ilogGe (q / 2) + 1) \<le> q \<and> q < pow2 (ilogGe (q / 2) + 1 + 1)"
      unfolding pow2_Suc [of "ilogGe (q / 2) + 1"] pow2_Suc [of "ilogGe (q / 2)"]
      by linarith
    with False show ?thesis
      by (subst (1 2) ilogGe.simps) simp
  qed
qed

lemma ilogLt_bounds:
  "0 < q \<Longrightarrow> q < 1 \<Longrightarrow> pow2 (ilogLt q) \<le> q \<and> q < pow2 (ilogLt q + 1)"
proof (induction q rule: ilogLt.induct)
  case (1 q)
  have step: "ilogLt q = ilogLt (q * 2) - 1"
    using "1.prems" by (subst ilogLt.simps) simp
  show ?case
  proof (cases "q * 2 < 1")
    case True
    with "1.IH" "1.prems"
    have "pow2 (ilogLt (q * 2)) \<le> q * 2 \<and> q * 2 < pow2 (ilogLt (q * 2) + 1)" by simp
    moreover have "pow2 (ilogLt (q * 2)) = 2 * pow2 (ilogLt (q * 2) - 1)"
      using pow2_Suc [of "ilogLt (q * 2) - 1"] by simp
    ultimately show ?thesis
      unfolding step by (simp add: pow2_Suc)
  next
    case False
    then have "ilogLt (q * 2) = 0"
      by (subst ilogLt.simps) simp
    with False "1.prems" show ?thesis
      unfolding step by (simp add: pow2_def)
  qed
qed

lemma ilog2_bounds: "0 < q \<Longrightarrow> pow2 (ilog2 q) \<le> q \<and> q < pow2 (ilog2 q + 1)"
  by (cases "1 \<le> q") (simp_all add: ilog2_def ilogGe_bounds ilogLt_bounds)

lemma floor_rat_numeral:
  "\<lfloor>(numeral a :: rat) / numeral b\<rfloor> = (numeral a :: int) div numeral b"
  using floor_divide_of_int_eq [of "numeral a" "numeral b", where ?'a = rat] by simp

lemma floor_rat_neg_numeral:
  "\<lfloor>- ((numeral a :: rat) / numeral b)\<rfloor> = (- numeral a :: int) div numeral b"
  using floor_divide_of_int_eq [of "- numeral a" "numeral b", where ?'a = rat] by simp

lemmas toDouble_eval = toDouble_def ilog2_def ilogGe.simps ilogLt.simps pow2_def
  roundHalfEven_def Let_def floor_rat_numeral floor_rat_neg_numeral

lemma double_values_minutes:
  "toDouble 60000 = Finite 60000"
  "toDouble 180000 = Finite 180000"
  "toDouble 540000 = Finite 540000"
  "toDouble 20000 = Finite 20000"
  by (simp_all add: toDouble_eval)

lemma double_values_negative:
  "toDouble (- 360000) = Finite (- 360000)"
  "toDouble (- 360) = Finite (- 360)"
  "toDouble (- 160000) = Finite (- 160000)"
  "toDouble (- 160) = Finite (- 160)"
  by (simp_all add: toDouble_eval)

lemma double_values_small:
  "toDouble 1 = Finite 1"
  "toDouble 3 = Finite 3"
  "toDouble 15 = Finite 15"
  by (simp_all add: toDouble_eval)

lemma double_values_seconds:
  "toDouble 4000 = Finite 4000"
  "toDouble 5000 = Finite 5000"
  "toDouble 9000 = Finite 9000"
  "toDouble 13000 = Finite 13000"
  by (simp_all add: toDouble_eval)

lemma double_values_mean:
  "toDouble (13000 / 3) = Finite (4764550387029333 / 1099511627776)"
  by (simp add: toDouble_eval)

lemma double_values_product:
  "toDouble (71468255805439995 / 1099511627776) = Finite (8933531975679999 / 137438953472)"
  by (simp add: toDouble_eval)

lemma double_values_difference:
  "toDouble (8246337208319999 / 137438953472) = Finite (8246337208319999 / 137438953472)"
  by (simp add: toDouble_eval)

lemma double_values_quotient:
  "toDouble (8246337208319999 / 137438953472000) = Finite (8444249301319679 / 140737488355328)"
  by (simp add: toDouble_eval)

lemmas double_values = double_values_minutes double_values_negative double_values_small
  double_values_seconds double_values_mean double_values_product double_values_difference
  double_values_quotient

lemma jsub_Finite:
  "jsub (Finite a) (Finite b) =
     (if b = 0 then Finite a else if a = b then Finite 0 else toDouble (a - b))"
  by (simp add: jsub_def)

lemma jmul_Finite:
  "a \<noteq> 0 \<Longrightarrow> b \<noteq> 0 \<Longrightarrow> jmul (Finite a) (Finite b) = toDouble (a * b)"
  by (simp add: jmul_def)

lemma jdiv_Finite:
  "b \<noteq> 0 \<Longrightarrow>
   jdiv (Finite a) (Finite b) = (if a = 0 then signedZero (b < 0) else toDouble (a / b))"
  by (simp add: jdiv_def)

lemmas double_ops = jsub_Finite jmul_Finite jdiv_Finite signedZero_def lengthNumber_def
  double_values

subsection \<open>The interval computation of \<open>calcEta\<close>\<close>

lemma length_diffLoop:
  "length (diffLoop i etaDates dateDiffs) = length dateDiffs + (length etaDates - i)"
proof (induction i etaDates dateDiffs rule: diffLoop.induct)
  case (1 i etaDates dateDiffs)
  show ?case
  proof (cases "i < length etaDates")
    case True
    with "1" show ?thesis by (subst diffLoop.simps) simp
  next
    case False
    then show ?thesis by (subst diffLoop.simps) simp
  qed
qed

text \<open>
  Claim C10. In \<open>calcEta\<close>, for every final record that reaches the interval computation
  (\<open>statusText\<close> is \<open>RIPPING_ENCODING\<close> or \<open>RIPPING_SUB_SCAN\<close> and at least two estimator
  lines), the list of successive differences has one entry less than \<open>etaEstimators\<close>,
  hence at least one, and \<open>calcEta\<close> does not leave through the fallback
  \<open>return '00:00:00'\<close> for an empty list of differences.
\<close>

theorem calcEta_fallback_unreachable:
  assumes "statusText st = RIPPING_ENCODING \<or> statusText st = RIPPING_SUB_SCAN"
      and "2 \<le> length (etaEstimators st)"
  shows "length (diffLoop 1 (map (\<lambda>est. getDateFromTime u (slice 1 9 est)) (etaEstimators st)) []) =
           length (etaEstimators st) - 1 \<and>
         1 \<le> length (etaEstimators st) - 1 \<and>
         fst (calcEtaTagged u seam now st) = RetFormatted \<and>
         fst (calcEtaTagged u seam now st) \<noteq> RetNoDiffs"
proof -
  let ?dates = "map (\<lambda>est. getDateFromTime u (slice 1 9 est)) (etaEstimators st)"
  have len: "length (diffLoop 1 ?dates []) = length (etaEstimators st) - 1"
    by (simp only: length_diffLoop length_map list.size add_0)
  then have pos: "length (diffLoop 1 ?dates []) \<noteq> 0"
    using assms(2) by linarith
  have tag: "fst (calcEtaTagged u seam now st) = RetFormatted"
    unfolding calcEtaTagged_def Let_def using assms pos by auto
  show ?thesis
    using len tag assms(2) by simp
qed

theorem calcEta_fallback_unreachable_witness:
  "(statusText midEncode = RIPPING_ENCODING \<or> statusText midEncode = RIPPING_SUB_SCAN) \<and>
   2 \<le> length (etaEstimators midEncode) \<and>
   length (diffLoop 1 (map (\<lambda>est. getDateFromTime sampleUtil (slice 1 9 est))
                        (etaEstimators midEncode)) []) = 1 \<and>
   fst (calcEtaTagged sampleUtil mockedTime (Finite 0) midEncode) = RetFormatted"
  using calcEta_fallback_unreachable [of midEncode sampleUtil mockedTime "Finite 0"]
  by (simp add: midEncode_def)

lemma diffLoop_eq:
  "1 \<le> i \<Longrightarrow> diffLoop i ds acc =
     acc @ map (\<lambda>k. jsub (ds ! k) (ds ! (k - 1))) [i..<length ds]"
proof (induction i ds acc rule: diffLoop.induct)
  case (1 i etaDates dateDiffs)
  show ?case
  proof (cases "i < length etaDates")
    case True
    with "1" show ?thesis
      by (subst diffLoop.simps) (simp add: upt_conv_Cons)
  next
    case False
    then show ?thesis by (subst diffLoop.simps) simp
  qed
qed

lemma successiveDifferences_nth:
  "successiveDifferences ds = map (\<lambda>k. jsub (ds ! k) (ds ! (k - 1))) [1..<length ds]"
proof (rule nth_equalityI)
  show "length (successiveDifferences ds) =
        length (map (\<lambda>k. jsub (ds ! k) (ds ! (k - 1))) [1..<length ds])"
    by (simp add: successiveDifferences_def)
next
  fix i assume "i < length (successiveDifferences ds)"
  then have i: "i < length ds - 1" by (simp add: successiveDifferences_def)
  then show "successiveDifferences ds ! i =
             map (\<lambda>k. jsub (ds ! k) (ds ! (k - 1))) [1..<length ds] ! i"
    by (simp add: successiveDifferences_def nth_tl)
qed

lemma diffLoop_spec: "diffLoop 1 ds [] = successiveDifferences ds"
  by (simp add: diffLoop_eq successiveDifferences_nth)

lemma sumLoop_eq: "sumLoop i xs s = foldl jadd s (drop i xs)"
proof (induction i xs s rule: sumLoop.induct)
  case (1 i dateDiffs sumv)
  show ?case
  proof (cases "i < length dateDiffs")
    case True
    with "1" show ?thesis
      by (subst sumLoop.simps) (simp add: Cons_nth_drop_Suc [symmetric])
  next
    case False
    then show ?thesis by (subst sumLoop.simps) simp
  qed
qed

lemma sumLoop_spec: "sumLoop 0 xs (Finite 0) = foldl jadd (Finite 0) xs"
  by (simp add: sumLoop_eq)

lemma calcEta_ripping:
  assumes "statusText st = RIPPING_ENCODING \<or> statusText st = RIPPING_SUB_SCAN"
      and "2 \<le> length (etaEstimators st)"
  shows "calcEta u seam now st =
           secondsToFormattedTime u
             (specRemainingSeconds (estimatorTimes u st) (numChapters st) (referenceNow seam now))"
proof -
  let ?dates = "map (\<lambda>est. getDateFromTime u (slice 1 9 est)) (etaEstimators st)"
  have ne: "?dates \<noteq> []"
    using assms(2) by auto
  have pos: "length (diffLoop 1 ?dates []) \<noteq> 0"
    using assms(2) by (simp only: length_diffLoop length_map list.size add_0)
  have lst: "?dates ! (length ?dates - 1) = last ?dates"
    using last_conv_nth [OF ne] by simp
  have "calcEta u seam now st =
          secondsToFormattedTime u
            (jdiv (jsub (jmul (jdiv (sumLoop 0 (diffLoop 1 ?dates []) (Finite 0))
                                    (lengthNumber (diffLoop 1 ?dates [])))
                              (jsub (numChapters st) (lengthNumber (etaEstimators st))))
                        (jsub (case seam of Some t \<Rightarrow> t | None \<Rightarrow> now)
                              (?dates ! (length ?dates - 1))))
                  (Finite 1000))"
    unfolding calcEta_def calcEtaTagged_def Let_def using assms pos by auto
  also have "\<dots> = secondsToFormattedTime u
             (specRemainingSeconds (estimatorTimes u st) (numChapters st) (referenceNow seam now))"
    unfolding lst diffLoop_spec sumLoop_spec specRemainingSeconds_def arithmeticMean_def
      referenceNow_def estimatorTimes_def
    by (simp add: lengthNumber_def)
  finally show ?thesis .
qed

lemma sample_times_uneven:
  "sampleGetDateFromTime ''00:10:04'' = Finite 604000"
  "sampleGetDateFromTime ''00:10:09'' = Finite 609000"
  "sampleGetDateFromTime ''00:10:13'' = Finite 613000"
  by (simp_all add: sampleGetDateFromTime_def twoDigits_def isDigit_def)

lemma sample_times:
  "sampleGetDateFromTime ''00:10:00'' = Finite 600000"
  "sampleGetDateFromTime ''00:11:00'' = Finite 660000"
  by (simp_all add: sampleGetDateFromTime_def twoDigits_def isDigit_def)

text \<open>
  Claim C3. For every final record whose \<open>statusText\<close> is \<open>RIPPING_ENCODING\<close> or
  \<open>RIPPING_SUB_SCAN\<close> and that has \<open>n \<ge> 2\<close> estimator lines, the estimate is the
  formatted value of \<open>(avg * (numChapters - n) - elapsed) / 1000\<close>, computed in doubles
  as the source does, where \<open>avg\<close> is the arithmetic mean of the \<open>n - 1\<close> successive
  differences of the estimator timestamps and \<open>elapsed\<close> is the time from the last
  timestamp to the reference now; the value goes to the formatter as it is, negative or
  not. In particular, two estimators one minute apart, five chapters and a reference now
  three minutes after the last sample give the formatted value of zero, which is
  \<open>"00:00:00"\<close> for a formatter that prints zero so. The second half of the witness has
  three intervals whose mean, \<open>13000 / 3\<close>, is not a double: the formatter receives
  \<open>59.99999999999999\<close>, not \<open>60\<close>.
\<close>

theorem calcEta_remaining_time:
  assumes "statusText st = RIPPING_ENCODING \<or> statusText st = RIPPING_SUB_SCAN"
      and "2 \<le> length (etaEstimators st)"
  shows "calcEta u seam now st =
           secondsToFormattedTime u
             (specRemainingSeconds (estimatorTimes u st) (numChapters st) (referenceNow seam now)) \<and>
         (\<forall>e1 e2 t.
            etaEstimators st = [e1, e2] \<and>
            getDateFromTime u (slice 1 9 e1) = Finite t \<and>
            getDateFromTime u (slice 1 9 e2) = Finite (t + 60000) \<and>
            numChapters st = Finite 5 \<and>
            referenceNow seam now = Finite (t + 60000 + 180000) \<and>
            secondsToFormattedTime u (Finite 0) = ''00:00:00''
            \<longrightarrow> calcEta u seam now st = ''00:00:00'')"
proof (intro conjI allI impI)
  show main: "calcEta u seam now st =
           secondsToFormattedTime u
             (specRemainingSeconds (estimatorTimes u st) (numChapters st) (referenceNow seam now))"
    using assms by (rule calcEta_ripping)
  fix e1 e2 t
  assume h: "etaEstimators st = [e1, e2] \<and>
            getDateFromTime u (slice 1 9 e1) = Finite t \<and>
            getDateFromTime u (slice 1 9 e2) = Finite (t + 60000) \<and>
            numChapters st = Finite 5 \<and>
            referenceNow seam now = Finite (t + 60000 + 180000) \<and>
            secondsToFormattedTime u (Finite 0) = ''00:00:00''"
  have interval: "jsub (Finite (t + 60000)) (Finite t) = Finite 60000"
    by (cases "t = 0") (simp_all add: jsub_Finite double_values)
  have elapsed: "jsub (Finite (t + 60000 + 180000)) (Finite (t + 60000)) = Finite 180000"
    by (cases "t + 60000 = 0") (simp_all add: jsub_Finite double_values)
  have "specRemainingSeconds (estimatorTimes u st) (numChapters st) (referenceNow seam now) =
          jdiv (jsub (jmul (jdiv (jadd (Finite 0) (jsub (Finite (t + 60000)) (Finite t)))
                                 (Finite 1))
                           (jsub (Finite 5) (Finite 2)))
                     (jsub (Finite (t + 60000 + 180000)) (Finite (t + 60000))))
               (Finite 1000)"
    using h
    by (simp add: specRemainingSeconds_def estimatorTimes_def successiveDifferences_def
        arithmeticMean_def lengthNumber_def)
  also have "\<dots> = Finite 0"
    unfolding interval elapsed by (simp add: double_ops)
  finally show "calcEta u seam now st = ''00:00:00''"
    using main h by simp
qed

theorem calcEta_remaining_time_witness:
  "(statusText midEncode = RIPPING_ENCODING \<or> statusText midEncode = RIPPING_SUB_SCAN) \<and>
   2 \<le> length (etaEstimators midEncode) \<and>
   specRemainingSeconds (estimatorTimes sampleUtil midEncode) (numChapters midEncode)
     (referenceNow mockedTime (Finite 0)) = Finite 0 \<and>
   calcEta sampleUtil mockedTime (Finite 0) midEncode = ''00:00:00'' \<and>
   (statusText unevenEncode = RIPPING_ENCODING \<or> statusText unevenEncode = RIPPING_SUB_SCAN) \<and>
   2 \<le> length (etaEstimators unevenEncode) \<and>
   arithmeticMean (successiveDifferences (estimatorTimes sampleUtil unevenEncode)) =
     Finite (4764550387029333 / 1099511627776) \<and>
   specRemainingSeconds (estimatorTimes sampleUtil unevenEncode) (numChapters unevenEncode)
     (referenceNow unevenTime (Finite 0)) = Finite (8444249301319679 / 140737488355328) \<and>
   calcEta sampleUtil unevenTime (Finite 0) unevenEncode = ''00:00:59''"
proof -
  have mean: "arithmeticMean (successiveDifferences (estimatorTimes sampleUtil unevenEncode)) =
              Finite (4764550387029333 / 1099511627776)"
    by (simp add: estimatorTimes_def successiveDifferences_def arithmeticMean_def double_ops
        unevenEncode_def sampleUtil_def slice_def sample_times sample_times_uneven)
  have a: "statusText midEncode = RIPPING_ENCODING \<or> statusText midEncode = RIPPING_SUB_SCAN"
    by (simp add: midEncode_def)
  have b: "2 \<le> length (etaEstimators midEncode)"
    by (simp add: midEncode_def)
  have c: "specRemainingSeconds (estimatorTimes sampleUtil midEncode) (numChapters midEncode)
             (referenceNow mockedTime (Finite 0)) = Finite 0"
    by (simp add: specRemainingSeconds_def estimatorTimes_def successiveDifferences_def
        arithmeticMean_def double_ops referenceNow_def mockedTime_def midEncode_def sampleUtil_def
        slice_def sample_times)
  have d: "secondsToFormattedTime sampleUtil (Finite 0) = ''00:00:00''"
    by (simp add: sampleUtil_def pad2_def)
  have a': "statusText unevenEncode = RIPPING_ENCODING \<or>
            statusText unevenEncode = RIPPING_SUB_SCAN"
    by (simp add: unevenEncode_def)
  have b': "2 \<le> length (etaEstimators unevenEncode)"
    by (simp add: unevenEncode_def)
  have c': "specRemainingSeconds (estimatorTimes sampleUtil unevenEncode)
              (numChapters unevenEncode) (referenceNow unevenTime (Finite 0)) =
            Finite (8444249301319679 / 140737488355328)"
    by (simp add: specRemainingSeconds_def estimatorTimes_def successiveDifferences_def
        arithmeticMean_def double_ops referenceNow_def unevenTime_def unevenEncode_def
        sampleUtil_def slice_def sample_times sample_times_uneven)
  have d': "secondsToFormattedTime sampleUtil (Finite (8444249301319679 / 140737488355328)) =
            ''00:00:59''"
    by (simp add: sampleUtil_def pad2_def floor_rat_numeral)
  show ?thesis
    using a b c d calcEta_remaining_time [OF a b, of sampleUtil mockedTime "Finite 0"]
      a' b' c' d' calcEta_remaining_time [OF a' b', of sampleUtil unevenTime "Finite 0"] mean
    by simp
qed

lemma calcEta_negative_example:
  "specRemainingSeconds (estimatorTimes sampleUtil midEncode) (numChapters midEncode)
     (Finite 1200000) = Finite (- 360) \<and>
   calcEta sampleUtil (Some (Finite 1200000)) (Finite 0) midEncode =
     secondsToFormattedTime sampleUtil (Finite (- 360))"
proof -
  have a: "statusText midEncode = RIPPING_ENCODING \<or> statusText midEncode = RIPPING_SUB_SCAN"
    by (simp add: midEncode_def)
  have b: "2 \<le> length (etaEstimators midEncode)"
    by (simp add: midEncode_def)
  have c: "specRemainingSeconds (estimatorTimes sampleUtil midEncode) (numChapters midEncode)
             (Finite 1200000) = Finite (- 360)"
    by (simp add: specRemainingSeconds_def estimatorTimes_def successiveDifferences_def
        arithmeticMean_def double_ops midEncode_def sampleUtil_def slice_def sample_times)
  show ?thesis
    using c calcEta_ripping [OF a b, of sampleUtil "Some (Finite 1200000)" "Finite 0"]
    by (simp add: referenceNow_def)
qed

subsection \<open>Lines without a pattern, and the order of the two steps of the listener\<close>

text \<open>
  Claim C1 says that a line matching no status pattern and no indicator pattern changes
  no field of the record, for every prior record. The code runs the action of the
  carried-over verdict again on such a line: on a fresh record (\<open>QUEUE_COMPLETE\<close>) it
  overwrites \<open>endTime\<close>, in \<open>SCANNING\<close> it resets a stored chapter count, and in
  \<open>RIPPING_ENCODING\<close> it sets \<open>eta\<close>.
\<close>

theorem noPattern_line_not_inert:
  "noPatternLine sampleUtil ''[00:00:01] HandBrake 1.3.3'' freshStatus \<and>
   endTime freshStatus = '''' \<and>
   endTime (onLine sampleUtil ''[00:00:01] HandBrake 1.3.3'' freshStatus) = ''00:00:01'' \<and>
   noPatternLine sampleUtil ''[00:00:01] HandBrake 1.3.3''
     (freshStatus\<lparr>statusText := SCANNING, numChapters := Finite 5\<rparr>) \<and>
   numChapters (onLine sampleUtil ''[00:00:01] HandBrake 1.3.3''
     (freshStatus\<lparr>statusText := SCANNING, numChapters := Finite 5\<rparr>)) = Finite (- 1) \<and>
   noPatternLine sampleUtil ''[00:00:01] HandBrake 1.3.3''
     (freshStatus\<lparr>statusText := RIPPING_ENCODING\<rparr>) \<and>
   eta (freshStatus\<lparr>statusText := RIPPING_ENCODING\<rparr>) = '''' \<and>
   eta (onLine sampleUtil ''[00:00:01] HandBrake 1.3.3''
     (freshStatus\<lparr>statusText := RIPPING_ENCODING\<rparr>)) = ''~''"
  by (simp add: noPatternLine_def onLine_def resolveStatus_def addLineIfIsIndicator_def
      clearStats_def freshStatus_def sampleUtil_def sampleLineToStatus_def slice_def)

text \<open>
  Claim C1, amended. For every line that matches no status pattern and no indicator
  pattern, and every prior record, folding the line leaves \<open>statusText\<close> equal to its
  prior value. It changes no field at all when that status is \<open>RIPPING\<close>; it changes at
  most \<open>eta\<close>, which becomes \<open>"~"\<close>, when the status is \<open>RIPPING_SUB_SCAN\<close> or
  \<open>RIPPING_ENCODING\<close>; it changes at most \<open>endTime\<close> when the status is
  \<open>QUEUE_COMPLETE\<close>; and it resets the other fields to their defaults when the status is
  \<open>SCANNING\<close> or \<open>SCAN_COMPLETE\<close>.
\<close>

theorem noPattern_line_effect:
  assumes "noPatternLine u line st"
  shows "statusText (onLine u line st) = statusText st \<and>
         (statusText st = RIPPING \<longrightarrow> onLine u line st = st) \<and>
         (statusText st = RIPPING_SUB_SCAN \<or> statusText st = RIPPING_ENCODING \<longrightarrow>
            onLine u line st = st\<lparr>eta := ''~''\<rparr>) \<and>
         (statusText st = QUEUE_COMPLETE \<longrightarrow>
            onLine u line st = st\<lparr>endTime := endTime (onLine u line st)\<rparr>) \<and>
         (statusText st = SCANNING \<or> statusText st = SCAN_COMPLETE \<longrightarrow>
            onLine u line st = (clearStats st)\<lparr>statusText := statusText st\<rparr>)"
  using assms
  by (cases "statusText st")
     (simp_all add: noPatternLine_def onLine_def resolveStatus_def addLineIfIsIndicator_def)

theorem noPattern_line_effect_witness:
  "noPatternLine sampleUtil ''[00:11:30] reader: done'' (midEncode\<lparr>statusText := RIPPING\<rparr>) \<and>
   onLine sampleUtil ''[00:11:30] reader: done'' (midEncode\<lparr>statusText := RIPPING\<rparr>) =
     midEncode\<lparr>statusText := RIPPING\<rparr> \<and>
   noPatternLine sampleUtil ''[00:11:30] reader: done'' midEncode \<and>
   onLine sampleUtil ''[00:11:30] reader: done'' midEncode = midEncode"
proof -
  have a: "noPatternLine sampleUtil ''[00:11:30] reader: done'' (midEncode\<lparr>statusText := RIPPING\<rparr>)"
    by (simp add: noPatternLine_def sampleUtil_def sampleLineToStatus_def)
  have b: "noPatternLine sampleUtil ''[00:11:30] reader: done'' midEncode"
    by (simp add: noPatternLine_def sampleUtil_def sampleLineToStatus_def)
  show ?thesis
    using a b noPattern_line_effect [OF a] noPattern_line_effect [OF b]
    by (simp add: midEncode_def)
qed

text \<open>
  Claim C2 says that the indicator check and the status fold commute for every line and
  every record. They do not when the verdict resets the record: for a chapter-count line
  that carries the verdict \<open>SCAN_COMPLETE\<close> over, the order of the code (indicator
  first) ends with the default \<open>-1\<close> and the other order with the count \<open>5\<close>.
\<close>

theorem indicator_status_order_matters:
  "lineToStatus sampleUtil ''  + title 1, chapter(s) 1 to 5'' SCAN_COMPLETE = SCAN_COMPLETE \<and>
   numChapters (resolveStatus sampleUtil ''  + title 1, chapter(s) 1 to 5''
     (addLineIfIsIndicator sampleUtil ''  + title 1, chapter(s) 1 to 5''
        (freshStatus\<lparr>statusText := SCAN_COMPLETE\<rparr>))) = Finite (- 1) \<and>
   numChapters (addLineIfIsIndicator sampleUtil ''  + title 1, chapter(s) 1 to 5''
     (resolveStatus sampleUtil ''  + title 1, chapter(s) 1 to 5''
        (freshStatus\<lparr>statusText := SCAN_COMPLETE\<rparr>))) = Finite 5"
  by (simp add: resolveStatus_def addLineIfIsIndicator_def clearStats_def freshStatus_def
      sampleUtil_def sampleLineToStatus_def trim_def sliceLast2_def isWhiteSpace_def
      isDigit_def digitVal_def)

text \<open>
  Claim C2, amended. For every line and every record, the indicator check and the
  status fold commute whenever the verdict of the line does not reset the record (it is
  not \<open>SCANNING\<close>, not \<open>SCAN_COMPLETE\<close>, and not \<open>RIPPING\<close> on a line with the
  encode-started marker) or the line matches neither indicator pattern.
\<close>

theorem indicator_status_commute:
  assumes "\<not> resetsRecord u line st \<or>
           (\<not> matchTITLE_NUMBER u line \<and> \<not> matchCHAPTER_PROGRESS u line)"
  shows "resolveStatus u line (addLineIfIsIndicator u line st) =
         addLineIfIsIndicator u line (resolveStatus u line st)"
  using assms
  by (cases "lineToStatus u line (statusText st)")
     (auto simp add: resetsRecord_def resolveStatus_def addLineIfIsIndicator_def clearStats_def
        Let_def)

theorem indicator_status_commute_witness:
  "\<not> resetsRecord sampleUtil ''[00:12:00] sync: Chapter 3'' midEncode \<and>
   matchCHAPTER_PROGRESS sampleUtil ''[00:12:00] sync: Chapter 3'' \<and>
   resolveStatus sampleUtil ''[00:12:00] sync: Chapter 3''
     (addLineIfIsIndicator sampleUtil ''[00:12:00] sync: Chapter 3'' midEncode) =
   addLineIfIsIndicator sampleUtil ''[00:12:00] sync: Chapter 3''
     (resolveStatus sampleUtil ''[00:12:00] sync: Chapter 3'' midEncode)"
proof -
  have a: "\<not> resetsRecord sampleUtil ''[00:12:00] sync: Chapter 3'' midEncode"
    by (simp add: resetsRecord_def sampleUtil_def sampleLineToStatus_def midEncode_def)
  have b: "matchCHAPTER_PROGRESS sampleUtil ''[00:12:00] sync: Chapter 3''"
    by (simp add: sampleUtil_def)
  show ?thesis
    using a b indicator_status_commute [of sampleUtil "''[00:12:00] sync: Chapter 3''" midEncode]
    by simp
qed

subsection \<open>Queries in flight\<close>

lemma run_Nil: "run u [] w = w"
  by (simp add: run_def)

lemma run_Cons: "run u (e # es) w = run u es (step u e w)"
  by (simp add: run_def)

lemma run_snoc: "run u (es @ [e]) w = step u e (run u es w)"
  by (simp add: run_def)

lemma settle_fields:
  "heap (settle c out w) = heap w"
  "readers (settle c out w) = readers w"
  "nextAddr (settle c out w) = nextAddr w"
  "settled (settle c out w) c' =
     (if c' = c \<and> settled w c = None then Some out else settled w c')"
  by (simp_all add: settle_def split: option.splits)

lemma wellFormed_initialWorld: "wellFormed (initialWorld seams)"
  by (simp add: wellFormed_def initialWorld_def)

lemma wellFormed_step: "wellFormed w \<Longrightarrow> wellFormed (step u e w)"
proof (cases e)
  case (Invoke c i)
  assume "wellFormed w"
  then show ?thesis
    unfolding wellFormed_def Invoke
    by (auto simp add: less_Suc_eq split: if_splits)
next
  case (LineEvent i line)
  assume "wellFormed w"
  then show ?thesis
    unfolding wellFormed_def LineEvent
    by (auto split: option.splits)
next
  case (ErrorEvent c i err)
  assume "wellFormed w"
  then show ?thesis
    unfolding wellFormed_def ErrorEvent
    by (simp add: settle_fields)
next
  case (CloseEvent c i now)
  assume "wellFormed w"
  then show ?thesis
    unfolding wellFormed_def CloseEvent
    by (auto simp add: settle_fields split: option.splits)
qed

lemma seam_step:
  "testSeam_currentTime (readers (step u e w) i) = testSeam_currentTime (readers w i)"
  by (cases e) (auto simp add: settle_fields split: option.splits)

lemma status_ref_step_other:
  "instOf e \<noteq> i \<Longrightarrow> status_ref (readers (step u e w) i) = status_ref (readers w i)"
  by (cases e) (auto simp add: settle_fields split: option.splits)

lemma settled_step_other:
  "\<not> settlesCall c e \<Longrightarrow> settled (step u e w) c = settled w c"
  by (cases e) (auto simp add: settle_fields split: option.splits)

lemma settled_run_other:
  "\<forall>e\<in>set es. \<not> settlesCall c e \<Longrightarrow> settled (run u es w) c = settled w c"
  by (induction es arbitrary: w) (simp_all add: run_Nil run_Cons settled_step_other)

lemma thisStatus_step_other:
  assumes "wellFormed w" and "instOf e \<noteq> i"
  shows "thisStatus (step u e w) i = thisStatus w i"
proof (cases e)
  case (Invoke c j)
  with assms show ?thesis
    unfolding wellFormed_def thisStatus_def
    by (auto split: option.splits)
next
  case (LineEvent j line)
  with assms show ?thesis
    unfolding wellFormed_def thisStatus_def
    by (auto split: option.splits)
next
  case (ErrorEvent c j err)
  show ?thesis
    by (simp add: ErrorEvent thisStatus_def settle_fields split: option.splits)
next
  case (CloseEvent c j now)
  with assms show ?thesis
    unfolding wellFormed_def thisStatus_def
    by (auto simp add: settle_fields split: option.splits)
qed

lemma thisStatus_step_same:
  assumes "instOf e = i"
  shows "thisStatus (step u e w) i =
           localStep u (testSeam_currentTime (readers w i)) e (thisStatus w i)"
  using assms unfolding thisStatus_def
  by (cases e) (auto simp add: settle_fields split: option.splits)

lemma thisStatus_run:
  assumes "wellFormed w"
  shows "thisStatus (run u es w) i =
           foldl (\<lambda>v e. localStep u (testSeam_currentTime (readers w i)) e v) (thisStatus w i)
             (filter (\<lambda>e. instOf e = i) es)"
  using assms
proof (induction es arbitrary: w)
  case Nil
  then show ?case by (simp add: run_Nil)
next
  case (Cons e es)
  have wf: "wellFormed (step u e w)"
    using Cons.prems by (rule wellFormed_step)
  show ?case
  proof (cases "instOf e = i")
    case True
    then show ?thesis
      using Cons.IH [OF wf] by (simp add: run_Cons seam_step thisStatus_step_same)
  next
    case False
    then show ?thesis
      using Cons.IH [OF wf] Cons.prems
      by (simp add: run_Cons seam_step thisStatus_step_other)
  qed
qed

lemma foldl_localStep_lines:
  "foldl (\<lambda>v e. localStep u seam e v) (Some st) (map (LineEvent i) lines) =
     Some (foldl (\<lambda>st line. onLine u line st) st lines)"
  by (induction lines arbitrary: st) simp_all

lemma foldl_localStep_query:
  "foldl (\<lambda>v e. localStep u seam e v) v (queryEvents c i lines now) =
     Some (getHBStatusItems u seam now lines)"
  by (simp add: queryEvents_def getHBStatusItems_def foldl_localStep_lines)

lemma filter_shuffles_left:
  assumes "es \<in> shuffles xs ys" and "\<forall>x\<in>set xs. P x" and "\<forall>y\<in>set ys. \<not> P y"
  shows "filter P es = xs"
proof -
  have "filter P es \<in> filter P ` shuffles xs ys"
    using assms(1) by (rule imageI)
  also have "\<dots> = shuffles (filter P xs) (filter P ys)"
    by (rule filter_shuffles)
  also have "filter P xs = xs"
    using assms(2) by (simp add: filter_id_conv)
  also have "filter P ys = []"
    using assms(3) by (simp add: filter_empty_conv)
  finally show ?thesis by simp
qed

lemma instOf_queryEvents: "e \<in> set (queryEvents c i lines now) \<Longrightarrow> instOf e = i"
  by (auto simp add: queryEvents_def)

lemma settlesCall_queryEvents:
  "e \<in> set (queryEvents c' i lines now) \<Longrightarrow> settlesCall c e \<Longrightarrow> c' = c"
  by (auto simp add: queryEvents_def)

lemma settled_run:
  assumes "wellFormed w" and "settled w c = None"
      and "filter (\<lambda>e. instOf e = i) es = queryEvents c i lines now"
      and "\<forall>e\<in>set es. settlesCall c e \<longrightarrow> instOf e = i"
  shows "\<exists>a. settled (run u es w) c = Some (Resolved a) \<and>
             status_ref (readers (run u es w) i) = Some a"
  using assms(3,4)
proof (induction es rule: rev_induct)
  case Nil
  then show ?case by (simp add: queryEvents_def)
next
  case (snoc e es)
  show ?case
  proof (cases "instOf e = i")
    case True
    with snoc.prems(1)
    have f: "filter (\<lambda>e. instOf e = i) es @ [e] =
             (Invoke c i # map (LineEvent i) lines) @ [CloseEvent c i now]"
      by (simp add: queryEvents_def)
    then have e: "e = CloseEvent c i now"
      and pre: "filter (\<lambda>e. instOf e = i) es = Invoke c i # map (LineEvent i) lines"
      by simp_all
    have quiet: "\<forall>x\<in>set es. \<not> settlesCall c x"
    proof
      fix x assume x: "x \<in> set es"
      show "\<not> settlesCall c x"
      proof
        assume sc: "settlesCall c x"
        then have "instOf x = i" using snoc.prems(2) x by simp
        then have "x \<in> set (filter (\<lambda>e. instOf e = i) es)" using x by simp
        then have "x \<in> set (Invoke c i # map (LineEvent i) lines)" using pre by simp
        then show False using sc by auto
      qed
    qed
    have pending: "settled (run u es w) c = None"
      using settled_run_other [OF quiet] assms(2) by simp
    have "thisStatus (run u es w) i =
            foldl (\<lambda>v e. localStep u (testSeam_currentTime (readers w i)) e v) (thisStatus w i)
              (Invoke c i # map (LineEvent i) lines)"
      using thisStatus_run [OF assms(1), of u es i] pre by simp
    then have "thisStatus (run u es w) i \<noteq> None"
      by (simp add: foldl_localStep_lines)
    then obtain a st where a: "status_ref (readers (run u es w) i) = Some a"
      and st: "heap (run u es w) a = Some st"
      unfolding thisStatus_def by (auto split: option.splits)
    show ?thesis
      unfolding e run_snoc using a st pending by (simp add: settle_fields)
  next
    case False
    then have pre: "filter (\<lambda>e. instOf e = i) es = queryEvents c i lines now"
      using snoc.prems(1) by simp
    have nc: "\<not> settlesCall c e"
      using snoc.prems(2) False by auto
    have "\<exists>a. settled (run u es w) c = Some (Resolved a) \<and>
              status_ref (readers (run u es w) i) = Some a"
    proof (rule snoc.IH [OF pre])
      show "\<forall>e\<in>set es. settlesCall c e \<longrightarrow> instOf e = i"
        using snoc.prems(2) by simp
    qed
    then obtain a where a: "settled (run u es w) c = Some (Resolved a)"
      and r: "status_ref (readers (run u es w) i) = Some a"
      by blast
    have "settled (run u (es @ [e]) w) c = Some (Resolved a)"
      using nc a by (simp add: run_snoc settled_step_other)
    moreover have "status_ref (readers (run u (es @ [e]) w) i) = Some a"
      using False r by (simp add: run_snoc status_ref_step_other)
    ultimately show ?thesis by blast
  qed
qed

lemma delivered_run:
  assumes "filter (\<lambda>e. instOf e = i) es = queryEvents c i lines now"
      and "\<forall>e\<in>set es. settlesCall c e \<longrightarrow> instOf e = i"
  shows "delivered (run u es (initialWorld seams)) c =
           Some (getHBStatusItems u (seams i) now lines)"
proof -
  let ?w = "run u es (initialWorld seams)"
  have pending: "settled (initialWorld seams) c = None"
    by (simp add: initialWorld_def)
  obtain a where a: "settled ?w c = Some (Resolved a)"
    and r: "status_ref (readers ?w i) = Some a"
    using settled_run [OF wellFormed_initialWorld pending assms, of u] by blast
  then have "delivered ?w c = thisStatus ?w i"
    by (simp add: delivered_def thisStatus_def)
  also have "\<dots> = Some (getHBStatusItems u (seams i) now lines)"
    using thisStatus_run [OF wellFormed_initialWorld, of u es seams i] assms(1)
    by (simp add: foldl_localStep_query initialWorld_def)
  finally show ?thesis .
qed

text \<open>
  Claim C9, amended. For every pair of status queries in flight at the same time on two
  distinct \<open>LogReader\<close> objects, also against the same log, and for every interleaving
  of their events, the two replays work on disjoint fresh status records and each
  promise is resolved with the record that its query returns when it runs alone.
\<close>

theorem distinct_readers_independent:
  assumes "i \<noteq> j" and "c1 \<noteq> c2"
      and "es \<in> shuffles (queryEvents c1 i lines1 now1) (queryEvents c2 j lines2 now2)"
  shows "delivered (run u es (initialWorld seams)) c1 =
           Some (getHBStatusItems u (seams i) now1 lines1) \<and>
         delivered (run u es (initialWorld seams)) c2 =
           Some (getHBStatusItems u (seams j) now2 lines2)"
proof
  have set_es: "set es = set (queryEvents c1 i lines1 now1) \<union> set (queryEvents c2 j lines2 now2)"
    using assms(3) by (rule set_shuffles)
  have f1: "filter (\<lambda>e. instOf e = i) es = queryEvents c1 i lines1 now1"
    using assms(3)
  proof (rule filter_shuffles_left)
    show "\<forall>x\<in>set (queryEvents c1 i lines1 now1). instOf x = i"
      by (simp add: instOf_queryEvents)
    show "\<forall>y\<in>set (queryEvents c2 j lines2 now2). instOf y \<noteq> i"
      using assms(1) by (auto dest: instOf_queryEvents)
  qed
  have es': "es \<in> shuffles (queryEvents c2 j lines2 now2) (queryEvents c1 i lines1 now1)"
    using assms(3) by (simp add: shuffles_commutes)
  have f2: "filter (\<lambda>e. instOf e = j) es = queryEvents c2 j lines2 now2"
    using es'
  proof (rule filter_shuffles_left)
    show "\<forall>x\<in>set (queryEvents c2 j lines2 now2). instOf x = j"
      by (simp add: instOf_queryEvents)
    show "\<forall>y\<in>set (queryEvents c1 i lines1 now1). instOf y \<noteq> j"
      using assms(1) by (auto dest: instOf_queryEvents)
  qed
  have c1: "\<forall>e\<in>set es. settlesCall c1 e \<longrightarrow> instOf e = i"
    using set_es assms(2) by (auto dest: instOf_queryEvents settlesCall_queryEvents)
  have c2: "\<forall>e\<in>set es. settlesCall c2 e \<longrightarrow> instOf e = j"
    using set_es assms(2) by (auto dest: instOf_queryEvents settlesCall_queryEvents)
  show "delivered (run u es (initialWorld seams)) c1 =
          Some (getHBStatusItems u (seams i) now1 lines1)"
    using f1 c1 by (rule delivered_run)
  show "delivered (run u es (initialWorld seams)) c2 =
          Some (getHBStatusItems u (seams j) now2 lines2)"
    using f2 c2 by (rule delivered_run)
qed

lemma calcEta_two_estimators:
  assumes "statusText st = RIPPING_ENCODING"
      and "etaEstimators st = [''[00:10:00] sync: Chapter 1'', ''[00:11:00] sync: Chapter 2'']"
      and "numChapters st = Finite 5"
  shows "calcEta sampleUtil mockedTime now st = ''00:00:00''"
proof -
  have a: "statusText st = RIPPING_ENCODING \<or> statusText st = RIPPING_SUB_SCAN"
    using assms(1) by simp
  have b: "2 \<le> length (etaEstimators st)"
    using assms(2) by simp
  have c: "specRemainingSeconds (estimatorTimes sampleUtil st) (numChapters st)
             (referenceNow mockedTime now) = Finite 0"
    using assms
    by (simp add: specRemainingSeconds_def estimatorTimes_def successiveDifferences_def
        arithmeticMean_def double_ops referenceNow_def mockedTime_def sampleUtil_def slice_def sample_times)
  show ?thesis
    using calcEta_ripping [OF a b, of sampleUtil mockedTime now] c
    by (simp add: sampleUtil_def pad2_def)
qed

lemma calcEta_four_estimators:
  assumes "statusText st = RIPPING_ENCODING"
      and "etaEstimators st =
             [''[00:10:00] sync: Chapter 1'', ''[00:10:00] sync: Chapter 1'',
              ''[00:11:00] sync: Chapter 2'', ''[00:11:00] sync: Chapter 2'']"
      and "numChapters st = Finite 5"
  shows "calcEta sampleUtil mockedTime now st = ''23:57:20''"
proof -
  have a: "statusText st = RIPPING_ENCODING \<or> statusText st = RIPPING_SUB_SCAN"
    using assms(1) by simp
  have b: "2 \<le> length (etaEstimators st)"
    using assms(2) by simp
  have c: "specRemainingSeconds (estimatorTimes sampleUtil st) (numChapters st)
             (referenceNow mockedTime now) = Finite (- 160)"
    using assms
    by (simp add: specRemainingSeconds_def estimatorTimes_def successiveDifferences_def
        arithmeticMean_def double_ops referenceNow_def mockedTime_def sampleUtil_def slice_def sample_times)
  show ?thesis
    using calcEta_ripping [OF a b, of sampleUtil mockedTime now] c
    by (simp add: sampleUtil_def pad2_def)
qed

lemma encodeLog_lines:
  "onLine sampleUtil ''[00:09:30] Starting Encode: Snatched'' st =
     (clearStats st)\<lparr>startTime := ''00:09:30'', currentEncode := ''Snatched'', statusText := RIPPING\<rparr>"
  "onLine sampleUtil ''[00:09:31] Encoding Pass'' st = st\<lparr>eta := ''~'', statusText := RIPPING_ENCODING\<rparr>"
  "statusText st = RIPPING_ENCODING \<Longrightarrow> onLine sampleUtil ''  + title 1, chapter(s) 1 to 5'' st =
     st\<lparr>numChapters := Finite 5, eta := ''~''\<rparr>"
  "statusText st = RIPPING_ENCODING \<Longrightarrow> onLine sampleUtil ''[00:10:00] sync: Chapter 1'' st =
     st\<lparr>etaEstimators := etaEstimators st @ [''[00:10:00] sync: Chapter 1''], eta := ''~''\<rparr>"
  "statusText st = RIPPING_ENCODING \<Longrightarrow> onLine sampleUtil ''[00:11:00] sync: Chapter 2'' st =
     st\<lparr>etaEstimators := etaEstimators st @ [''[00:11:00] sync: Chapter 2''], eta := ''~''\<rparr>"
  by (simp_all add: onLine_def resolveStatus_def addLineIfIsIndicator_def clearStats_def
      sampleUtil_def sampleLineToStatus_def slice_def trim_def sliceLast2_def isWhiteSpace_def
      isDigit_def digitVal_def)

lemma encodeLog_alone:
  "getHBStatusItems sampleUtil mockedTime now encodeLog =
     \<lparr>currentEncode = ''Snatched'', startTime = ''00:09:30'', endTime = '''',
      statusText = RIPPING_ENCODING, numChapters = Finite 5,
      etaEstimators = [''[00:10:00] sync: Chapter 1'', ''[00:11:00] sync: Chapter 2''],
      eta = ''00:00:00'', status = Some ''Ripping (encoding)''\<rparr>"
  by (simp add: getHBStatusItems_def encodeLog_def encodeLog_lines freshStatus_def clearStats_def
      onClose_def calcEta_two_estimators)
     (simp add: sampleUtil_def)

text \<open>
  Claim C9 says that two queries in flight never share state, also when both are calls
  on the same \<open>LogReader\<close> object against the same log. The status object hangs on the
  reader (\<open>this.status\<close>) and every listener reaches it through the reader, so the
  second call replaces the object of the first and both replays then write into one
  record: with the events of the two calls taken in turn, both promises are resolved
  with the same reference, the record holds every estimator line twice, and the
  estimate is \<open>"23:57:20"\<close> where a query running alone returns \<open>"00:00:00"\<close>.
\<close>

theorem same_reader_queries_interfere:
  "sameReaderSchedule \<in>
     shuffles (queryEvents 1 0 encodeLog (Finite 0)) (queryEvents 2 0 encodeLog (Finite 0)) \<and>
   getHBStatusItems sampleUtil mockedTime (Finite 0) encodeLog =
     \<lparr>currentEncode = ''Snatched'', startTime = ''00:09:30'', endTime = '''',
      statusText = RIPPING_ENCODING, numChapters = Finite 5,
      etaEstimators = [''[00:10:00] sync: Chapter 1'', ''[00:11:00] sync: Chapter 2''],
      eta = ''00:00:00'', status = Some ''Ripping (encoding)''\<rparr> \<and>
   delivered (run sampleUtil sameReaderSchedule (initialWorld (\<lambda>i. mockedTime))) 1 =
     Some \<lparr>currentEncode = ''Snatched'', startTime = ''00:09:30'', endTime = '''',
      statusText = RIPPING_ENCODING, numChapters = Finite 5,
      etaEstimators = [''[00:10:00] sync: Chapter 1'', ''[00:10:00] sync: Chapter 1'',
                       ''[00:11:00] sync: Chapter 2'', ''[00:11:00] sync: Chapter 2''],
      eta = ''23:57:20'', status = Some ''Ripping (encoding)''\<rparr> \<and>
   settled (run sampleUtil sameReaderSchedule (initialWorld (\<lambda>i. mockedTime))) 1 =
   settled (run sampleUtil sameReaderSchedule (initialWorld (\<lambda>i. mockedTime))) 2"
proof (intro conjI)
  show "sameReaderSchedule \<in>
     shuffles (queryEvents 1 0 encodeLog (Finite 0)) (queryEvents 2 0 encodeLog (Finite 0))"
    unfolding sameReaderSchedule_def by (rule splice_in_shuffles)
  show "getHBStatusItems sampleUtil mockedTime (Finite 0) encodeLog =
     \<lparr>currentEncode = ''Snatched'', startTime = ''00:09:30'', endTime = '''',
      statusText = RIPPING_ENCODING, numChapters = Finite 5,
      etaEstimators = [''[00:10:00] sync: Chapter 1'', ''[00:11:00] sync: Chapter 2''],
      eta = ''00:00:00'', status = Some ''Ripping (encoding)''\<rparr>"
    by (rule encodeLog_alone)
  show "delivered (run sampleUtil sameReaderSchedule (initialWorld (\<lambda>i. mockedTime))) 1 =
     Some \<lparr>currentEncode = ''Snatched'', startTime = ''00:09:30'', endTime = '''',
      statusText = RIPPING_ENCODING, numChapters = Finite 5,
      etaEstimators = [''[00:10:00] sync: Chapter 1'', ''[00:10:00] sync: Chapter 1'',
                       ''[00:11:00] sync: Chapter 2'', ''[00:11:00] sync: Chapter 2''],
      eta = ''23:57:20'', status = Some ''Ripping (encoding)''\<rparr>"
    by (simp add: delivered_def sameReaderSchedule_def queryEvents_def encodeLog_def run_def
        initialWorld_def encodeLog_lines freshStatus_def clearStats_def onClose_def
        calcEta_four_estimators settle_def)
       (simp add: sampleUtil_def)
  show "settled (run sampleUtil sameReaderSchedule (initialWorld (\<lambda>i. mockedTime))) 1 =
        settled (run sampleUtil sameReaderSchedule (initialWorld (\<lambda>i. mockedTime))) 2"
    by (simp add: sameReaderSchedule_def queryEvents_def encodeLog_def run_def initialWorld_def
        settle_def)
qed

theorem distinct_readers_independent_witness:
  "(0::nat) \<noteq> 1 \<and> (1::nat) \<noteq> 2 \<and>
   splice (queryEvents 1 0 encodeLog (Finite 0)) (queryEvents 2 1 encodeLog (Finite 0)) \<in>
     shuffles (queryEvents 1 0 encodeLog (Finite 0)) (queryEvents 2 1 encodeLog (Finite 0)) \<and>
   delivered (run sampleUtil
       (splice (queryEvents 1 0 encodeLog (Finite 0)) (queryEvents 2 1 encodeLog (Finite 0)))
       (initialWorld (\<lambda>i. mockedTime))) 1 =
     Some (getHBStatusItems sampleUtil mockedTime (Finite 0) encodeLog) \<and>
   delivered (run sampleUtil
       (splice (queryEvents 1 0 encodeLog (Finite 0)) (queryEvents 2 1 encodeLog (Finite 0)))
       (initialWorld (\<lambda>i. mockedTime))) 2 =
     Some (getHBStatusItems sampleUtil mockedTime (Finite 0) encodeLog) \<and>
   eta (getHBStatusItems sampleUtil mockedTime (Finite 0) encodeLog) = ''00:00:00''"
proof -
  have a: "(0::nat) \<noteq> 1" by simp
  have b: "(1::nat) \<noteq> 2" by simp
  have c: "splice (queryEvents 1 0 encodeLog (Finite 0)) (queryEvents 2 1 encodeLog (Finite 0)) \<in>
     shuffles (queryEvents 1 0 encodeLog (Finite 0)) (queryEvents 2 1 encodeLog (Finite 0))"
    by (rule splice_in_shuffles)
  show ?thesis
    using a b c distinct_readers_independent [OF a b c, of sampleUtil "\<lambda>i. mockedTime"]
    by (simp add: encodeLog_alone)
qed

subsection \<open>A query whose line source fails\<close>

lemma settled_run_final:
  "settled w c = Some out \<Longrightarrow> settled (run u es w) c = Some out"
proof (induction es arbitrary: w)
  case Nil
  then show ?case by (simp add: run_Nil)
next
  case (Cons e es)
  have "settled (step u e w) c = Some out"
    using Cons.prems by (cases e) (auto simp add: settle_fields split: option.splits)
  then show ?case
    using Cons.IH by (simp add: run_Cons)
qed

lemma run_append: "run u (xs @ ys) w = run u ys (run u xs w)"
  by (simp add: run_def)

lemma rejected_after_error:
  assumes "settled w c = None" and "\<forall>e\<in>set before. \<not> settlesCall c e"
  shows "settled (run u (before @ ErrorEvent c i err # after) w) c = Some (Rejected err)"
proof -
  have "settled (run u before w) c = None"
    using settled_run_other [OF assms(2)] assms(1) by simp
  then have "settled (step u (ErrorEvent c i err) (run u before w)) c = Some (Rejected err)"
    by (simp add: settle_fields)
  then show ?thesis
    by (simp add: run_append run_Cons settled_run_final)
qed

text \<open>
  Claim C8. For every status query whose line source fails, be it before the first line
  (the file cannot be opened, a permission error) or in the middle of the replay, the
  promise of the query is rejected with that error and no status record, not even a
  partial one, is delivered to its caller, whatever events follow. The failure reaches
  the reader as the \<open>error\<close> event of the readline interface, the one place where the
  source listens for it, and no \<open>close\<close> or \<open>error\<close> event of the same call comes
  before it.
\<close>

theorem failed_query_rejected:
  assumes "\<forall>e\<in>set before. \<not> settlesCall c e"
  shows "settled (run u (before @ ErrorEvent c i err # after) (initialWorld seams)) c =
           Some (Rejected err) \<and>
         delivered (run u (before @ ErrorEvent c i err # after) (initialWorld seams)) c = None \<and>
         settled (run u (Invoke c i # map (LineEvent i) ls @ ErrorEvent c i err # after)
                    (initialWorld seams)) c = Some (Rejected err) \<and>
         delivered (run u (Invoke c i # map (LineEvent i) ls @ ErrorEvent c i err # after)
                      (initialWorld seams)) c = None"
proof -
  have pending: "settled (initialWorld seams) c = None"
    by (simp add: initialWorld_def)
  have general: "settled (run u (before @ ErrorEvent c i err # after) (initialWorld seams)) c =
                   Some (Rejected err)"
    using pending assms by (rule rejected_after_error)
  have quiet: "\<forall>e\<in>set (Invoke c i # map (LineEvent i) ls). \<not> settlesCall c e"
    by auto
  have query: "settled (run u ((Invoke c i # map (LineEvent i) ls) @ ErrorEvent c i err # after)
                          (initialWorld seams)) c = Some (Rejected err)"
    using pending quiet by (rule rejected_after_error)
  show ?thesis
    using general query by (simp add: delivered_def)
qed

theorem failed_query_rejected_witness:
  "settled (run sampleUtil
       [Invoke 1 0, LineEvent 0 ''[00:09:30] Starting Encode: Snatched'',
        LineEvent 0 ''[00:09:31] Encoding Pass'', ErrorEvent 1 0 ''EIO: i/o error, read'',
        CloseEvent 1 0 (Finite 0)]
       (initialWorld (\<lambda>i. mockedTime))) 1 = Some (Rejected ''EIO: i/o error, read'') \<and>
   delivered (run sampleUtil
       [Invoke 1 0, LineEvent 0 ''[00:09:30] Starting Encode: Snatched'',
        LineEvent 0 ''[00:09:31] Encoding Pass'', ErrorEvent 1 0 ''EIO: i/o error, read'',
        CloseEvent 1 0 (Finite 0)]
       (initialWorld (\<lambda>i. mockedTime))) 1 = None \<and>
   settled (run sampleUtil [Invoke 2 0, ErrorEvent 2 0 ''ENOENT: no such file or directory'']
       (initialWorld (\<lambda>i. mockedTime))) 2 =
     Some (Rejected ''ENOENT: no such file or directory'')"
  using failed_query_rejected
          [of "[Invoke 1 0, LineEvent 0 ''[00:09:30] Starting Encode: Snatched'',
                LineEvent 0 ''[00:09:31] Encoding Pass'']"
              1 sampleUtil 0 "''EIO: i/o error, read''" "[CloseEvent 1 0 (Finite 0)]"
              "\<lambda>i. mockedTime"]
        failed_query_rejected
          [of "[Invoke 2 0]" 2 sampleUtil 0 "''ENOENT: no such file or directory''" "[]"
              "\<lambda>i. mockedTime"]
  by simp

end
